theory Spec2Isabelle
  imports Complex_Main "HOL-Library.Sublist" "HOL-Library.Log_Nat" "HOL-Library.Word"
begin

section \<open>Strings\<close>

text \<open>
  A string of the program is a sequence of 16-bit code units. \<open>ustr\<close> writes one from a
  literal of one-byte characters.
\<close>

type_synonym ustring = "16 word list"

definition ustr :: "string \<Rightarrow> ustring" where
  "ustr s = map of_char s"

text \<open>
  \<open>String.prototype.trim\<close> strips white space and line terminators from both ends: TAB, LF,
  VT, FF, CR, SPACE, NO-BREAK SPACE, U+1680, U+2000 to U+200A, U+2028, U+2029, U+202F, U+205F,
  U+3000 and U+FEFF.
\<close>

definition isWhiteSpace :: "16 word \<Rightarrow> bool" where
  "isWhiteSpace c \<longleftrightarrow>
     c \<in> set [0x0009, 0x000A, 0x000B, 0x000C, 0x000D, 0x0020, 0x00A0, 0x1680,
               0x2000, 0x2001, 0x2002, 0x2003, 0x2004, 0x2005, 0x2006, 0x2007, 0x2008,
               0x2009, 0x200A, 0x2028, 0x2029, 0x202F, 0x205F, 0x3000, 0xFEFF]"

definition trim :: "ustring \<Rightarrow> ustring" where
  "trim s = rev (dropWhile isWhiteSpace (rev (dropWhile isWhiteSpace s)))"

text \<open>\<open>s.includes(q)\<close>: \<open>q\<close> occurs in \<open>s\<close> at some position.\<close>

fun includes' :: "ustring \<Rightarrow> ustring \<Rightarrow> bool" where
  "includes' [] q = (q = [])"
| "includes' (c # s) q = (prefix q (c # s) \<or> includes' s q)"

text \<open>The words of the specification: a string is blank when it is empty or holds white
  space only; \<open>q\<close> is a substring of \<open>s\<close> when \<open>s\<close> is some text, then \<open>q\<close>, then some text.\<close>

definition blank :: "ustring \<Rightarrow> bool" where
  "blank s = list_all isWhiteSpace s"

definition occurs :: "ustring \<Rightarrow> ustring \<Rightarrow> bool" where
  "occurs q s \<longleftrightarrow> (\<exists>u w. s = u @ q @ w)"

section \<open>Numbers\<close>

text \<open>
  A number of the program is an IEEE 754 double: a finite value, given here by the rational
  it stands for, an infinity or NaN. The two zeros are one value, \<open>Fin 0\<close>: no operation
  below tells them apart.
\<close>

datatype number = Fin rat | PosInf | NegInf | NaN

text \<open>
  Rounding a rational to the nearest double, ties to the even significand. For positive \<open>x\<close>,
  \<open>exponent x\<close> is the integer \<open>e\<close> with \<open>2 ^ e \<le> x < 2 ^ (e + 1)\<close>; the doubles around \<open>x\<close> are the
  multiples of \<open>2 ^ (e - 52)\<close>, and of \<open>2 ^ (- 1074)\<close> below the normal range; a result of
  magnitude \<open>2 ^ 1024\<close> or more is an infinity.
\<close>

definition round_half_even :: "rat \<Rightarrow> int" where
  "round_half_even q =
     (let f = \<lfloor>q\<rfloor>; d = q - of_int f
      in if d < 1 / 2 then f else if 1 / 2 < d then f + 1 else if even f then f else f + 1)"

definition exponent :: "rat \<Rightarrow> int" where
  "exponent x = (if 1 \<le> x then bitlen \<lfloor>x\<rfloor> - 1 else - bitlen (\<lceil>1 / x\<rceil> - 1))"

definition double_limit :: rat where
  "double_limit = 2 ^ 1024"

definition toDouble :: "rat \<Rightarrow> number" where
  "toDouble y =
     (if y = 0 then Fin 0
      else let u = power_int 2 (max (exponent \<bar>y\<bar> - 52) (- 1074));
               r = of_int (round_half_even (y / u)) * u
           in if double_limit \<le> \<bar>r\<bar> then (if 0 < r then PosInf else NegInf) else Fin r)"

text \<open>The operators \<open>+\<close>, \<open><\<close> and \<open><=\<close> on numbers.\<close>

fun num_add :: "number \<Rightarrow> number \<Rightarrow> number" where
  "num_add (Fin x) (Fin y) = toDouble (x + y)"
| "num_add NaN b = NaN"
| "num_add a NaN = NaN"
| "num_add PosInf NegInf = NaN"
| "num_add NegInf PosInf = NaN"
| "num_add PosInf b = PosInf"
| "num_add a PosInf = PosInf"
| "num_add NegInf b = NegInf"
| "num_add a NegInf = NegInf"

fun num_less :: "number \<Rightarrow> number \<Rightarrow> bool" where
  "num_less (Fin x) (Fin y) = (x < y)"
| "num_less NaN b = False"
| "num_less a NaN = False"
| "num_less a NegInf = False"
| "num_less PosInf b = False"
| "num_less NegInf b = True"
| "num_less a PosInf = True"

fun num_le :: "number \<Rightarrow> number \<Rightarrow> bool" where
  "num_le (Fin x) (Fin y) = (x \<le> y)"
| "num_le NaN b = False"
| "num_le a NaN = False"
| "num_le NegInf b = True"
| "num_le a PosInf = True"
| "num_le a NegInf = False"
| "num_le PosInf b = False"

text \<open>A whole number: finite, without a fractional part.\<close>

fun whole :: "number \<Rightarrow> bool" where
  "whole (Fin x) = (of_int \<lfloor>x\<rfloor> = x)"
| "whole a = False"

section \<open>Data model\<close>

record Product =
  id' :: ustring
  name :: ustring
  category :: ustring
  price :: number
  description :: ustring
  rating :: number
  reviews :: number
  images :: "ustring list"

record CartItem =
  product :: Product
  quantity :: number

record CartState =
  items :: "CartItem list"
  checkoutOpen :: bool
  confirmationMessage :: "ustring option"

section \<open>Cart store (\<open>useCartStore\<close>)\<close>

definition initialCart :: CartState where
  "initialCart = \<lparr>items = [], checkoutOpen = False, confirmationMessage = None\<rparr>"

definition addItem :: "Product \<Rightarrow> CartState \<Rightarrow> CartState" where
  "addItem p state =
     (case find (\<lambda>item. id' (product item) = id' p) (items state) of
        Some existing \<Rightarrow>
          state\<lparr>items :=
            map (\<lambda>item. if id' (product item) = id' p
                         then item\<lparr>quantity := num_add (quantity item) (Fin 1)\<rparr>
                         else item)
                (items state)\<rparr>
      | None \<Rightarrow> state\<lparr>items := items state @ [\<lparr>product = p, quantity = Fin 1\<rparr>]\<rparr>)"

text \<open>The store's type declares \<open>productId\<close> a number; every caller passes
  \<open>item.product.id\<close>, a string, which \<open>===\<close> compares with the lines' identifiers.\<close>

definition updateQuantity :: "ustring \<Rightarrow> number \<Rightarrow> CartState \<Rightarrow> CartState" where
  "updateQuantity productId q state =
     state\<lparr>items :=
       filter (\<lambda>item. num_less (Fin 0) (quantity item))
         (map (\<lambda>item. if id' (product item) = productId then item\<lparr>quantity := q\<rparr> else item)
              (items state))\<rparr>"

definition toggleCheckout :: "bool \<Rightarrow> CartState \<Rightarrow> CartState" where
  "toggleCheckout isOpen state = state\<lparr>checkoutOpen := isOpen\<rparr>"

definition setConfirmationMessage :: "ustring option \<Rightarrow> CartState \<Rightarrow> CartState" where
  "setConfirmationMessage message state = state\<lparr>confirmationMessage := message\<rparr>"

definition resetCart :: "CartState \<Rightarrow> CartState" where
  "resetCart state = state\<lparr>items := []\<rparr>"

text \<open>The cart invariant of the data model: one line per product identifier, quantities at
  least 1.\<close>

definition cart_inv :: "CartItem list \<Rightarrow> bool" where
  "cart_inv its \<longleftrightarrow>
     distinct (map (\<lambda>item. id' (product item)) its) \<and> list_all (\<lambda>item. num_le (Fin 1) (quantity item)) its"

definition has_line :: "ustring \<Rightarrow> CartItem list \<Rightarrow> bool" where
  "has_line pid its = list_ex (\<lambda>item. id' (product item) = pid) its"

text \<open>Sequences of store operations, applied from left to right.\<close>

datatype cart_op = AddItem Product | UpdateQuantity ustring number | ResetCart

fun apply_op :: "CartState \<Rightarrow> cart_op \<Rightarrow> CartState" where
  "apply_op s (AddItem p) = addItem p s"
| "apply_op s (UpdateQuantity pid q) = updateQuantity pid q s"
| "apply_op s ResetCart = resetCart s"

definition run_ops :: "cart_op list \<Rightarrow> CartState \<Rightarrow> CartState" where
  "run_ops ops s = foldl apply_op s ops"

text \<open>The cart as the code keeps it whatever the arguments: one line per product identifier,
  quantities above 0.\<close>

definition cart_pos :: "CartItem list \<Rightarrow> bool" where
  "cart_pos its \<longleftrightarrow>
     distinct (map (\<lambda>item. id' (product item)) its) \<and>
     list_all (\<lambda>item. num_less (Fin 0) (quantity item)) its"

text \<open>Every quantity passed to \<open>updateQuantity\<close> in a sequence is a whole number.\<close>

fun whole_update :: "cart_op \<Rightarrow> bool" where
  "whole_update (UpdateQuantity pid q) = whole q"
| "whole_update x = True"

text \<open>Example products used to evaluate the definitions on concrete inputs.\<close>

definition jacket :: Product where
  "jacket = \<lparr>id' = ustr ''p1'', name = ustr ''Denim Jacket'', category = ustr ''Streetwear'',
     price = Fin 40, description = ustr ''Washed blue denim'', rating = Fin (9 / 2),
     reviews = Fin 12,
     images = [ustr ''/uploads/a.jpg'', ustr ''/uploads/b.jpg'', ustr ''/uploads/c.jpg'']\<rparr>"

definition dress :: Product where
  "dress = \<lparr>id' = ustr ''p2'', name = ustr ''Silk Dress'', category = ustr ''Evening Luxe'',
     price = Fin 15, description = ustr ''Pairs with a cropped JACKET'', rating = Fin 4,
     reviews = Fin 3, images = [ustr ''/uploads/d.jpg'']\<rparr>"

definition cart2 :: CartState where
  "cart2 = \<lparr>items = [\<lparr>product = jacket, quantity = Fin 2\<rparr>, \<lparr>product = dress, quantity = Fin 1\<rparr>],
     checkoutOpen = True, confirmationMessage = None\<rparr>"

text \<open>A cart whose only line has the quantity \<open>2 ^ 53\<close>, as
  \<open>updateQuantity(id, 9007199254740992)\<close> leaves it.\<close>

definition cartBig :: CartState where
  "cartBig = \<lparr>items = [\<lparr>product = jacket, quantity = Fin (2 ^ 53)\<rparr>], checkoutOpen = True,
     confirmationMessage = None\<rparr>"

section \<open>Catalog view (\<open>filteredProducts\<close>)\<close>

text \<open>
  \<open>String.prototype.toLowerCase\<close> is the engine's Unicode case conversion. The filter is
  embedded for any function in its place, the parameter \<open>toLowerCase\<close>.
\<close>

definition filteredProducts ::
  "(ustring \<Rightarrow> ustring) \<Rightarrow> Product list \<Rightarrow> ustring \<Rightarrow> ustring \<Rightarrow> Product list" where
  "filteredProducts toLowerCase products activeCategory searchTerm =
     (let query = toLowerCase (trim searchTerm)
      in filter (\<lambda>product.
           let matchesCategory =
                 (activeCategory = ustr ''All'' \<or> category product = activeCategory);
               matchesQuery = (query = [] \<or> includes' (toLowerCase (name product)) query
                                \<or> includes' (toLowerCase (description product)) query)
           in matchesCategory \<and> matchesQuery) products)"

text \<open>
  On characters up to U+00FF the case conversion acts on each character by itself: it adds
  32 to the codes of \<open>A\<close> to \<open>Z\<close> and of the capital letters from U+00C0 to U+00DE (U+00D7, the
  multiplication sign, is no letter).
\<close>

definition latin1 :: "ustring \<Rightarrow> bool" where
  "latin1 s = list_all (\<lambda>c. c < 0x100) s"

definition lowerLatin1 :: "16 word \<Rightarrow> 16 word" where
  "lowerLatin1 c =
     (if (0x41 \<le> c \<and> c \<le> 0x5A) \<or> (0xC0 \<le> c \<and> c \<le> 0xDE \<and> c \<noteq> 0xD7) then c + 0x20 else c)"

text \<open>
  The words of the specification. \<open>q\<close> is a case-insensitive substring of \<open>s\<close> when some
  stretch of \<open>s\<close> equals \<open>q\<close> once the case of the letters is ignored; a product matches a
  selected category and a search term when (a) and (b) of the filter hold.
\<close>

definition ci_substring :: "ustring \<Rightarrow> ustring \<Rightarrow> bool" where
  "ci_substring q s \<longleftrightarrow> (\<exists>u v w. s = u @ v @ w \<and> map lowerLatin1 v = map lowerLatin1 q)"

definition catalog_match :: "ustring \<Rightarrow> ustring \<Rightarrow> Product \<Rightarrow> bool" where
  "catalog_match selected searchTerm p \<longleftrightarrow>
     (selected = ustr ''All'' \<or> category p = selected) \<and>
     (trim searchTerm = [] \<or> ci_substring (trim searchTerm) (name p)
        \<or> ci_substring (trim searchTerm) (description p))"

text \<open>The same with the substring test the code makes: the lower-cased term occurs in the
  lower-cased name or description.\<close>

definition lowered_match :: "(ustring \<Rightarrow> ustring) \<Rightarrow> ustring \<Rightarrow> ustring \<Rightarrow> Product \<Rightarrow> bool" where
  "lowered_match toLowerCase selected searchTerm p \<longleftrightarrow>
     (selected = ustr ''All'' \<or> category p = selected) \<and>
     (trim searchTerm = []
        \<or> occurs (toLowerCase (trim searchTerm)) (toLowerCase (name p))
        \<or> occurs (toLowerCase (trim searchTerm)) (toLowerCase (description p)))"

text \<open>
  The case conversion on strings of characters up to U+00FF and the Greek sigma. The capital
  sigma U+03A3 becomes the final sigma U+03C2 where a cased letter stands before it and none
  after it (the condition Final_Sigma of the Unicode standard, for a sigma with no
  case-ignorable character such as an apostrophe next to it), and the small sigma U+03C3
  elsewhere.
\<close>

definition casedUnit :: "16 word \<Rightarrow> bool" where
  "casedUnit c \<longleftrightarrow>
     (0x41 \<le> c \<and> c \<le> 0x5A) \<or> (0x61 \<le> c \<and> c \<le> 0x7A) \<or> c \<in> set [0xAA, 0xB5, 0xBA]
     \<or> (0xC0 \<le> c \<and> c \<le> 0xFF \<and> c \<noteq> 0xD7 \<and> c \<noteq> 0xF7) \<or> c \<in> set [0x3A3, 0x3C2, 0x3C3]"

fun lowerFrom :: "bool \<Rightarrow> ustring \<Rightarrow> ustring" where
  "lowerFrom before [] = []"
| "lowerFrom before (c # s) =
     (if c = 0x3A3
      then (if before \<and> (case s of [] \<Rightarrow> True | d # t \<Rightarrow> \<not> casedUnit d) then 0x3C2 else 0x3C3)
      else lowerLatin1 c)
     # lowerFrom (casedUnit c) s"

definition toLowerCase_sigma :: "ustring \<Rightarrow> ustring" where
  "toLowerCase_sigma s = lowerFrom False s"

text \<open>Example products.\<close>

definition cargo :: Product where
  "cargo = \<lparr>id' = ustr ''p3'', name = ustr ''Cargo Pants'', category = ustr ''Streetwear'',
     price = Fin 55, description = ustr ''Loose fit'', rating = Fin (7 / 2), reviews = Fin 7,
     images = []\<rparr>"

definition hoodie :: Product where
  "hoodie = \<lparr>id' = ustr ''p4'', name = ustr ''Hoodie'', category = ustr ''Streetwear'',
     price = Fin 35, description = ustr ''Layer under a Jacket'', rating = Fin 5,
     reviews = Fin 1, images = [ustr ''/uploads/h.jpg'']\<rparr>"

definition catalog :: "Product list" where
  "catalog = [jacket, dress, cargo, hoodie]"

text \<open>A product named \<open>A\<Sigma>B\<close>, with a capital sigma, and the search term \<open>A\<Sigma>\<close>.\<close>

definition sigmaTee :: Product where
  "sigmaTee = \<lparr>id' = ustr ''p5'', name = [0x41, 0x3A3, 0x42], category = ustr ''Streetwear'',
     price = Fin 20, description = ustr ''Printed tee'', rating = Fin 4, reviews = Fin 2,
     images = []\<rparr>"

definition sigmaTerm :: ustring where
  "sigmaTerm = [0x41, 0x3A3]"

section \<open>Checkout flow (\<open>CartCheckout\<close>)\<close>

definition sizes :: "ustring list" where
  "sizes = [ustr ''XS'', ustr ''S'', ustr ''M'', ustr ''L'', ustr ''XL'']"

record CheckoutDetails =
  fullName :: ustring
  phone :: ustring
  address :: ustring
  size' :: ustring

text \<open>The state hooks of the component: the four fields, \<open>error\<close> and \<open>submitting\<close>.\<close>

record FormState = CheckoutDetails +
  error :: "ustring option"
  submitting :: bool

text \<open>The body of \<open>POST /api/orders\<close>; an item is the pair \<open>(productId, quantity)\<close>.\<close>

record OrderPayload = CheckoutDetails +
  orderItems :: "(ustring \<times> number) list"

text \<open>
  The outcome of the awaited \<open>axios.post\<close>: it resolves, or it rejects with the message the
  backend sent (\<open>err.response?.data?.message\<close>), if any. The callback \<open>onSubmitOrder\<close> belongs
  to the caller and may act on the cart store; it returns or throws.
\<close>

datatype post_result = Resolved | Rejected "ustring option"

datatype callback_result = Returned CartState | Threw CartState

type_synonym submit_callback = "CheckoutDetails \<Rightarrow> CartState \<Rightarrow> callback_result"

fun result_store :: "callback_result \<Rightarrow> CartState" where
  "result_store (Returned st) = st"
| "result_store (Threw st) = st"

text \<open>The callback that \<open>Store\<close> passes in \<open>App.tsx\<close>: its body is a comment.\<close>

definition onSubmitOrder_App :: submit_callback where
  "onSubmitOrder_App details st = Returned st"

text \<open>The component with what surrounds it: its form, the cart store it is rendered from
  and the requests sent so far.\<close>

record CheckoutWorld =
  form :: FormState
  store :: CartState
  requests :: "OrderPayload list"

definition initialForm :: FormState where
  "initialForm = \<lparr>fullName = [], phone = [], address = [], size' = sizes ! 2,
     error = None, submitting = False\<rparr>"

definition initialWorld :: CheckoutWorld where
  "initialWorld = \<lparr>form = initialForm, store = initialCart, requests = []\<rparr>"

definition rejected_locally :: "FormState \<Rightarrow> bool" where
  "rejected_locally f \<longleftrightarrow>
     trim (fullName f) = [] \<or> trim (phone f) = [] \<or> trim (address f) = [] \<or> trim (size' f) = []"

definition order_payload :: "CheckoutWorld \<Rightarrow> OrderPayload" where
  "order_payload w =
     \<lparr>fullName = trim (fullName (form w)), phone = trim (phone (form w)),
      address = trim (address (form w)), size' = size' (form w),
      orderItems = map (\<lambda>item. (id' (product item), quantity item)) (items (store w))\<rparr>"

text \<open>\<open>handleSubmit\<close> up to the \<open>await\<close>: the entry guard, then the request.\<close>

definition handleSubmit_start :: "CheckoutWorld \<Rightarrow> CheckoutWorld + CheckoutWorld" where
  "handleSubmit_start w =
     (if rejected_locally (form w)
      then Inl (w\<lparr>form := (form w)
                  \<lparr>error := Some (ustr ''Please fill in all required details before submitting.'')\<rparr>\<rparr>)
      else Inr (w\<lparr>form := (form w)\<lparr>error := None, submitting := True\<rparr>,
                  requests := requests w @ [order_payload w]\<rparr>))"

text \<open>\<open>handleSubmit\<close> after the \<open>await\<close>; \<open>f0\<close> holds the field values the handler closed
  over when it was called.\<close>

definition handleSubmit_finish ::
  "submit_callback \<Rightarrow> FormState \<Rightarrow> post_result \<Rightarrow> CheckoutWorld \<Rightarrow> CheckoutWorld" where
  "handleSubmit_finish onSubmitOrder f0 result w =
     (case result of
        Resolved \<Rightarrow>
          (case onSubmitOrder \<lparr>fullName = trim (fullName f0), phone = trim (phone f0),
                                address = trim (address f0), size' = size' f0\<rparr> (store w) of
             Returned st \<Rightarrow>
               w\<lparr>form := (form w)\<lparr>fullName := [], phone := [], address := [],
                                   size' := sizes ! 2, submitting := False\<rparr>,
                 store := st\<rparr>
           | Threw st \<Rightarrow>
               w\<lparr>form := (form w)\<lparr>error := Some (ustr ''Failed to submit order. Please try again.''),
                                   submitting := False\<rparr>,
                 store := st\<rparr>)
      | Rejected message \<Rightarrow>
          w\<lparr>form := (form w)\<lparr>error := Some (ustr ''Failed to submit order. Please try again.''),
                              submitting := False\<rparr>\<rparr>)"

definition handleSubmit ::
  "submit_callback \<Rightarrow> (OrderPayload \<Rightarrow> post_result) \<Rightarrow> CheckoutWorld \<Rightarrow> CheckoutWorld" where
  "handleSubmit onSubmitOrder backend w =
     (case handleSubmit_start w of
        Inl w' \<Rightarrow> w'
      | Inr w' \<Rightarrow> handleSubmit_finish onSubmitOrder (form w) (backend (order_payload w)) w')"

text \<open>What the form renders: \<open>{error && ...}\<close> and \<open>{confirmationMessage && ...}\<close>; an empty
  string is falsy.\<close>

definition shown_error :: "CheckoutWorld \<Rightarrow> ustring option" where
  "shown_error w = (case error (form w) of None \<Rightarrow> None | Some m \<Rightarrow> if m = [] then None else Some m)"

definition shown_confirmation :: "CheckoutWorld \<Rightarrow> ustring option" where
  "shown_confirmation w =
     (case confirmationMessage (store w) of None \<Rightarrow> None
      | Some m \<Rightarrow> if m = [] then None else Some m)"

text \<open>\<open>handleAddToCart\<close> of \<open>Store\<close>, the only caller of \<open>setConfirmationMessage\<close>.\<close>

definition handleAddToCart :: "Product \<Rightarrow> CartState \<Rightarrow> CartState" where
  "handleAddToCart p st = setConfirmationMessage None (toggleCheckout True (addItem p st))"

text \<open>The events of a session: typing into the three inputs, a change of the size select
  (\<open>setSize(event.target.value)\<close>), submitting, adding a product from the catalog, opening or
  closing the cart, and the cart store's operations.\<close>

datatype checkout_event =
    SetFullName ustring
  | SetPhone ustring
  | SetAddress ustring
  | SetSize ustring
  | Submit "OrderPayload \<Rightarrow> post_result"
  | AddToCart Product
  | ToggleCheckout bool
  | Cart cart_op

fun checkout_step :: "submit_callback \<Rightarrow> CheckoutWorld \<Rightarrow> checkout_event \<Rightarrow> CheckoutWorld" where
  "checkout_step cb w (SetFullName v) = w\<lparr>form := (form w)\<lparr>fullName := v\<rparr>\<rparr>"
| "checkout_step cb w (SetPhone v) = w\<lparr>form := (form w)\<lparr>phone := v\<rparr>\<rparr>"
| "checkout_step cb w (SetAddress v) = w\<lparr>form := (form w)\<lparr>address := v\<rparr>\<rparr>"
| "checkout_step cb w (SetSize v) = w\<lparr>form := (form w)\<lparr>size' := v\<rparr>\<rparr>"
| "checkout_step cb w (Submit backend) = handleSubmit cb backend w"
| "checkout_step cb w (AddToCart p) = w\<lparr>store := handleAddToCart p (store w)\<rparr>"
| "checkout_step cb w (ToggleCheckout b) = w\<lparr>store := toggleCheckout b (store w)\<rparr>"
| "checkout_step cb w (Cart x) = w\<lparr>store := apply_op (store w) x\<rparr>"


definition checkout_run :: "submit_callback \<Rightarrow> checkout_event list \<Rightarrow> CheckoutWorld" where
  "checkout_run cb evs = foldl (checkout_step cb) initialWorld evs"

text \<open>A filled-in form over the example cart.\<close>

definition filled :: CheckoutWorld where
  "filled = \<lparr>form = \<lparr>fullName = ustr '' Elena Marques '', phone = ustr ''+1 555 010 2045'',
                      address = ustr ''123 Atelier Lane'', size' = ustr ''L'', error = None,
                      submitting = False\<rparr>,
              store = cart2, requests = []\<rparr>"

text \<open>Two backends: one accepts every order, one refuses every order with a message.\<close>

definition backend_accepts :: "OrderPayload \<Rightarrow> post_result" where
  "backend_accepts payload = Resolved"

definition backend_sold_out :: "OrderPayload \<Rightarrow> post_result" where
  "backend_sold_out payload = Rejected (Some (ustr ''Size L is sold out''))"


section \<open>Product detail overlay (\<open>ProductDetailModal\<close>)\<close>

text \<open>The interval of the timer, in milliseconds.\<close>

definition AUTOPLAY_INTERVAL :: nat where
  "AUTOPLAY_INTERVAL = 4000"

text \<open>
  The props \<open>product\<close> and \<open>isOpen\<close> with the two state hooks. The field of the prop is named
  \<open>modalProduct\<close>, as \<open>product\<close> is the field of a cart line.
\<close>

record Modal =
  modalProduct :: "Product option"
  isOpen :: bool
  activeIndex :: nat
  isAutoplaying :: bool

definition initialModal :: Modal where
  "initialModal = \<lparr>modalProduct = None, isOpen = False, activeIndex = 0, isAutoplaying = True\<rparr>"

definition modalImages :: "Modal \<Rightarrow> ustring list" where
  "modalImages m = (case modalProduct m of None \<Rightarrow> [] | Some p \<Rightarrow> images p)"

text \<open>The autoplay effect installs the interval unless it returns early; the navigation
  buttons are rendered when the overlay is and there is more than one image.\<close>

definition timerRunning :: "Modal \<Rightarrow> bool" where
  "timerRunning m \<longleftrightarrow> \<not> (\<not> isOpen m \<or> \<not> isAutoplaying m \<or> length (modalImages m) \<le> 1)"

definition rendered :: "Modal \<Rightarrow> bool" where
  "rendered m \<longleftrightarrow> \<not> (\<not> isOpen m \<or> modalProduct m = None)"

definition controlsShown :: "Modal \<Rightarrow> bool" where
  "controlsShown m \<longleftrightarrow> rendered m \<and> length (modalImages m) > 1"

text \<open>
  The callbacks. \<open>nextSlide\<close>, \<open>prevSlide\<close> and the timer's callback are reached only with more
  than one image (\<open>controlsShown\<close>, \<open>timerRunning\<close>), so the remainder is never taken by zero
  and \<open>length - 1\<close> never of an empty list.
\<close>

definition tick :: "Modal \<Rightarrow> Modal" where
  "tick m = m\<lparr>activeIndex := (activeIndex m + 1) mod length (modalImages m)\<rparr>"

definition goToSlide :: "nat \<Rightarrow> Modal \<Rightarrow> Modal" where
  "goToSlide index m = m\<lparr>activeIndex := index, isAutoplaying := False\<rparr>"

definition nextSlide :: "Modal \<Rightarrow> Modal" where
  "nextSlide m =
     m\<lparr>activeIndex := (activeIndex m + 1) mod length (modalImages m), isAutoplaying := False\<rparr>"

definition prevSlide :: "Modal \<Rightarrow> Modal" where
  "prevSlide m =
     m\<lparr>activeIndex := (if activeIndex m = 0 then length (modalImages m) - 1
                         else activeIndex m - 1),
       isAutoplaying := False\<rparr>"

definition toggleAutoplay :: "Modal \<Rightarrow> Modal" where
  "toggleAutoplay m = m\<lparr>isAutoplaying := \<not> isAutoplaying m\<rparr>"

text \<open>\<open>handleOpenModal\<close> and \<open>handleCloseModal\<close> of \<open>Store\<close> set the props; the reset effect
  depends on \<open>isOpen\<close> and runs when it has become true.\<close>

definition handleOpenModal :: "Product \<Rightarrow> Modal \<Rightarrow> Modal" where
  "handleOpenModal p m =
     (if isOpen m then m\<lparr>modalProduct := Some p\<rparr>
      else m\<lparr>modalProduct := Some p, isOpen := True, activeIndex := 0, isAutoplaying := True\<rparr>)"

definition handleCloseModal :: "Modal \<Rightarrow> Modal" where
  "handleCloseModal m = m\<lparr>isOpen := False, modalProduct := None\<rparr>"

text \<open>An event has no successor state where its timer is not installed or its button is not
  rendered.\<close>

datatype modal_event = Open Product | Close | Tick | Next | Prev | Toggle

fun modal_step :: "Modal \<Rightarrow> modal_event \<Rightarrow> Modal option" where
  "modal_step m (Open p) = Some (handleOpenModal p m)"
| "modal_step m Close = (if rendered m then Some (handleCloseModal m) else None)"
| "modal_step m Tick = (if timerRunning m then Some (tick m) else None)"
| "modal_step m Next = (if controlsShown m then Some (nextSlide m) else None)"
| "modal_step m Prev = (if controlsShown m then Some (prevSlide m) else None)"
| "modal_step m Toggle = (if controlsShown m then Some (toggleAutoplay m) else None)"

fun modal_run :: "Modal \<Rightarrow> modal_event list \<Rightarrow> Modal option" where
  "modal_run m [] = Some m"
| "modal_run m (e # es) = (case modal_step m e of None \<Rightarrow> None | Some m' \<Rightarrow> modal_run m' es)"

text \<open>The overlay just opened for a product with three images, and for one with a single
  image.\<close>

definition jacketOpen :: Modal where
  "jacketOpen = \<lparr>modalProduct = Some jacket, isOpen = True, activeIndex = 0, isAutoplaying = True\<rparr>"

definition dressOpen :: Modal where
  "dressOpen = \<lparr>modalProduct = Some dress, isOpen = True, activeIndex = 0, isAutoplaying = True\<rparr>"

section \<open>Numbers: rounding\<close>

lemma rhe_of_int: "round_half_even (of_int j) = j"
  by (simp add: round_half_even_def)

lemma rhe_floor: "\<lfloor>q\<rfloor> \<le> round_half_even q"
  by (simp add: round_half_even_def Let_def)

lemma rhe_ge:
  assumes "of_int n \<le> q"
  shows "n \<le> round_half_even q"
proof -
  have "n \<le> \<lfloor>q\<rfloor>" using assms by (simp add: le_floor_iff)
  also have "\<dots> \<le> round_half_even q" by (rule rhe_floor)
  finally show ?thesis .
qed

lemma exponent_ge1:
  assumes "1 \<le> y"
  shows "0 \<le> exponent y" and "2 ^ nat (exponent y) \<le> y"
proof -
  have f: "0 < \<lfloor>y\<rfloor>" using assms by simp
  have e: "exponent y = bitlen \<lfloor>y\<rfloor> - 1"
    using assms by (simp add: exponent_def)
  have "1 \<le> bitlen \<lfloor>y\<rfloor>"
    using f by (simp add: bitlen_ge_iff_power)
  then show "0 \<le> exponent y" by (simp add: e)
  have "2 ^ nat (bitlen \<lfloor>y\<rfloor> - 1) \<le> \<lfloor>y\<rfloor>"
    using bitlen_bounds [OF f] by blast
  then have "(of_int (2 ^ nat (bitlen \<lfloor>y\<rfloor> - 1)) :: rat) \<le> of_int \<lfloor>y\<rfloor>"
    by (simp only: of_int_le_iff)
  also have "\<dots> \<le> y" by simp
  finally show "2 ^ nat (exponent y) \<le> y" by (simp add: e)
qed

lemma power_int_neg: "k \<le> 0 \<Longrightarrow> power_int (2::rat) k = 1 / 2 ^ nat (- k)"
  by (simp add: power_int_def field_simps)

lemma power_int_pos: "0 \<le> k \<Longrightarrow> power_int (2::rat) k = 2 ^ nat k"
  by (simp add: power_int_def)

lemma toDouble_unfold:
  assumes "y \<noteq> 0" and "max (exponent \<bar>y\<bar> - 52) (- 1074) = k"
    and "of_int (round_half_even (y / power_int 2 k)) * power_int 2 k = r"
  shows "toDouble y =
      (if double_limit \<le> \<bar>r\<bar> then (if 0 < r then PosInf else NegInf) else Fin r)"
  by (simp only: toDouble_def Let_def assms if_False)

lemma toDouble_ge1:
  assumes y: "1 \<le> y"
  shows "num_le (Fin 1) (toDouble y)"
proof -
  define e where "e = exponent y"
  define u where "u = power_int (2::rat) (e - 52)"
  define R where "R = round_half_even (y / u)"
  have e0: "0 \<le> e" and ey: "2 ^ nat e \<le> y"
    using exponent_ge1 [OF y] by (simp_all add: e_def)
  have upos: "0 < u" by (simp add: u_def)
  have r1: "1 \<le> of_int R * u"
  proof (cases "e \<le> 52")
    case True
    then have u: "u = 1 / 2 ^ nat (52 - e)"
      by (simp add: u_def power_int_neg)
    have "(of_int (2 ^ nat (52 - e)) :: rat) \<le> y * 2 ^ nat (52 - e)"
      using y by simp
    then have "2 ^ nat (52 - e) \<le> R"
      unfolding R_def u by (intro rhe_ge) simp
    then have "(of_int (2 ^ nat (52 - e)) :: rat) \<le> of_int R"
      by (simp only: of_int_le_iff)
    then show ?thesis
      by (simp add: u field_simps)
  next
    case False
    then have u: "u = 2 ^ nat (e - 52)"
      by (simp add: u_def power_int_pos)
    have "(2::rat) ^ nat (e - 52) \<le> 2 ^ nat e"
      using e0 by (intro power_increasing) simp_all
    then have "(2::rat) ^ nat (e - 52) \<le> y" using ey by (rule order_trans)
    then have uy: "u \<le> y" by (simp only: u)
    have u1: "1 \<le> u" by (simp add: u)
    have "of_int 1 \<le> y / u"
      using uy upos by (simp add: field_simps)
    then have "1 \<le> R"
      unfolding R_def by (rule rhe_ge)
    then have "(1::rat) \<le> of_int R" by simp
    then have "1 * 1 \<le> of_int R * u"
      using u1 by (intro mult_mono) simp_all
    then show ?thesis by simp
  qed
  have y0: "y \<noteq> 0" and ya: "\<bar>y\<bar> = y" using y by simp_all
  have k: "max (exponent \<bar>y\<bar> - 52) (- 1074) = e - 52"
    using e0 by (simp add: ya e_def)
  have "toDouble y =
      (if double_limit \<le> \<bar>of_int R * u\<bar> then (if 0 < of_int R * u then PosInf else NegInf)
       else Fin (of_int R * u))"
    using y0 k by (rule toDouble_unfold) (simp add: R_def u_def)
  then show ?thesis
    using r1 by simp
qed

lemma int_below_limit:
  assumes "0 \<le> m" and "m \<le> 2 ^ 53"
  shows "\<not> double_limit \<le> \<bar>of_int m\<bar>"
proof -
  have "(of_int m :: rat) \<le> of_int (2 ^ 53)"
    using assms by (simp only: of_int_le_iff)
  also have "\<dots> = 2 ^ 53" by simp
  also have "\<dots> < (2::rat) ^ 1024"
    by (rule power_strict_increasing) simp_all
  finally show ?thesis using assms by (simp add: double_limit_def)
qed

lemma toDouble_int:
  assumes "1 \<le> m" and "m \<le> 2 ^ 53"
  shows "toDouble (of_int m) = Fin (of_int m)"
proof -
  have small: "\<not> double_limit \<le> \<bar>of_int m\<bar>"
    using assms by (intro int_below_limit) simp_all
  have y0: "(of_int m :: rat) \<noteq> 0" and ya: "\<bar>of_int m :: rat\<bar> = of_int m"
    using assms by simp_all
  have e: "exponent (of_int m) = bitlen m - 1"
    using assms by (simp add: exponent_def)
  have b1: "1 \<le> bitlen m"
    using assms by (simp add: bitlen_ge_iff_power)
  have "\<exists>k. max (exponent \<bar>of_int m\<bar> - 52) (- 1074) = k \<and>
      of_int (round_half_even (of_int m / power_int 2 k)) * power_int 2 k = (of_int m :: rat)"
  proof (cases "m < 2 ^ 53")
    case True
    then have "bitlen m \<le> 53"
      by (simp add: bitlen_le_iff_power)
    then have k: "max (exponent \<bar>of_int m\<bar> - 52) (- 1074) = bitlen m - 53"
      and n: "bitlen m - 53 \<le> 0"
      using b1 by (simp_all add: ya e)
    define n where "n = nat (53 - bitlen m)"
    have u: "power_int (2::rat) (bitlen m - 53) = 1 / 2 ^ n"
      using n by (simp add: power_int_neg n_def)
    have "(of_int m :: rat) / (1 / 2 ^ n) = of_int (m * 2 ^ n)"
      by simp
    then have "round_half_even (of_int m / (1 / 2 ^ n)) = m * 2 ^ n"
      by (simp only: rhe_of_int)
    then have "of_int (round_half_even (of_int m / power_int 2 (bitlen m - 53)))
        * power_int 2 (bitlen m - 53) = (of_int m :: rat)"
      by (simp add: u)
    with k show ?thesis by blast
  next
    case False
    then have m: "m = 2 ^ 53" using assms by simp
    have "bitlen (1 * 2 ^ 53) = bitlen 1 + int 53"
      by (rule bitlen_pow2) simp
    moreover have "bitlen 1 = 1"
      by (simp add: bitlen_alt_def)
    ultimately have "bitlen m = 54" by (simp add: m)
    then have k: "max (exponent \<bar>of_int m\<bar> - 52) (- 1074) = 1"
      by (simp add: ya e)
    have "(of_int m :: rat) / power_int 2 1 = of_int (2 ^ 52)"
      by (simp add: m)
    then have "round_half_even (of_int m / power_int 2 1) = 2 ^ 52"
      by (simp only: rhe_of_int)
    then have "of_int (round_half_even (of_int m / power_int 2 1)) * power_int 2 1
        = (of_int m :: rat)"
      by (simp add: m)
    with k show ?thesis by blast
  qed
  then obtain k where "max (exponent \<bar>of_int m\<bar> - 52) (- 1074) = k"
    and "of_int (round_half_even (of_int m / power_int 2 k)) * power_int 2 k = (of_int m :: rat)"
    by blast
  with y0 have "toDouble (of_int m) =
      (if double_limit \<le> \<bar>of_int m\<bar> then (if 0 < (of_int m :: rat) then PosInf else NegInf)
       else Fin (of_int m))"
    by (rule toDouble_unfold)
  with small show ?thesis by simp
qed

lemma toDouble_2p53_plus1: "toDouble (2 ^ 53 + 1) = Fin (2 ^ 53)"
proof -
  have "bitlen (2 ^ 53 + 1) = int 53 + 1"
    using bitlen_twopow_add_eq [of 1 53] by simp
  then have b: "bitlen 9007199254740993 = 54" by simp
  have k: "max (exponent \<bar>2 ^ 53 + 1\<bar> - 52) (- 1074) = 1"
    by (simp add: exponent_def b)
  have "\<lfloor>(9007199254740993 :: rat) / 2\<rfloor> = 4503599627370496"
    by (rule floor_unique) simp_all
  then have "round_half_even ((2 ^ 53 + 1) / power_int 2 1) = 2 ^ 52"
    by (simp add: round_half_even_def Let_def)
  then have r: "of_int (round_half_even ((2 ^ 53 + 1) / power_int 2 1)) * power_int 2 1
      = (2 ^ 53 :: rat)"
    by simp
  have "(2 ^ 53 + 1 :: rat) \<noteq> 0" by simp
  then have "toDouble (2 ^ 53 + 1) =
      (if double_limit \<le> \<bar>2 ^ 53\<bar> then (if 0 < (2 ^ 53 :: rat) then PosInf else NegInf)
       else Fin (2 ^ 53))"
    using k r by (rule toDouble_unfold)
  moreover have "\<not> double_limit \<le> \<bar>2 ^ 53 :: rat\<bar>"
    using int_below_limit [of "2 ^ 53"] by simp
  ultimately show ?thesis by simp
qed

lemma num_le1_less0: "num_le (Fin 1) q \<Longrightarrow> num_less (Fin 0) q"
  by (cases q) simp_all

lemma num_le0_not_less0: "num_le q (Fin 0) \<Longrightarrow> \<not> num_less (Fin 0) q"
  by (cases q) simp_all

lemma add1_ge1: "num_less (Fin 0) q \<Longrightarrow> num_le (Fin 1) (num_add q (Fin 1))"
  by (cases q) (simp_all add: toDouble_ge1)

lemma add1_whole:
  assumes "0 \<le> n" and "n < 2 ^ 53"
  shows "num_add (Fin (of_int n)) (Fin 1) = Fin (of_int n + 1)"
proof -
  have "toDouble (of_int (n + 1)) = Fin (of_int (n + 1))"
    using assms by (intro toDouble_int) simp_all
  then show ?thesis by simp
qed

lemma whole_pos_ge1:
  assumes "whole q" and "num_less (Fin 0) q"
  shows "num_le (Fin 1) q"
proof (cases q)
  case (Fin x)
  from assms(1) have w: "of_int \<lfloor>x\<rfloor> = x"
    unfolding Fin by (simp only: whole.simps)
  from assms(2) have "0 < x"
    unfolding Fin by simp
  with w have "(0::rat) < of_int \<lfloor>x\<rfloor>" by (simp only:)
  then have "0 < \<lfloor>x\<rfloor>" by (simp only: of_int_0_less_iff)
  then have "1 \<le> \<lfloor>x\<rfloor>" by linarith
  then have "(of_int 1 :: rat) \<le> of_int \<lfloor>x\<rfloor>" by (simp only: of_int_le_iff)
  with w have "1 \<le> x" by (simp only: of_int_1)
  then show ?thesis by (simp add: Fin)
qed (use assms in simp_all)

lemma add1_pos: "num_less (Fin 0) q \<Longrightarrow> num_less (Fin 0) (num_add q (Fin 1))"
  by (rule num_le1_less0) (rule add1_ge1)

lemma add1_keeps_ge1: "num_le (Fin 1) q \<Longrightarrow> num_le (Fin 1) (num_add q (Fin 1))"
  by (rule add1_ge1) (rule num_le1_less0)

section \<open>Cart store: list lemmas\<close>

lemma find_has_line:
  "find (\<lambda>item. id' (product item) = pid) its = None \<longleftrightarrow> \<not> has_line pid its"
  by (auto simp: has_line_def find_None_iff list_ex_iff)

lemma has_line_nth:
  "has_line pid its \<longleftrightarrow> (\<exists>i < length its. id' (product (its ! i)) = pid)"
  by (simp add: has_line_def list_ex_length)

lemma map_at_unique_key:
  assumes d: "distinct (map f xs)" and i: "i < length xs" and k: "f (xs ! i) = k"
  shows "map (\<lambda>x. if f x = k then g x else x) xs = xs[i := g (xs ! i)]"
proof (rule nth_equalityI)
  show "length (map (\<lambda>x. if f x = k then g x else x) xs) = length (xs[i := g (xs ! i)])"
    by simp
next
  fix j
  assume "j < length (map (\<lambda>x. if f x = k then g x else x) xs)"
  then have j: "j < length xs" by simp
  have "f (xs ! j) = k \<longleftrightarrow> j = i"
    using d i j k nth_eq_iff_index_eq [of "map f xs" j i] by auto
  then show "map (\<lambda>x. if f x = k then g x else x) xs ! j = xs[i := g (xs ! i)] ! j"
    using i j by (auto simp: nth_list_update)
qed

lemma filter_map_untouched:
  assumes "\<forall>x \<in> set ys. f x \<noteq> k \<and> P x"
  shows "filter P (map (\<lambda>x. if f x = k then g x else x) ys) = ys"
  using assms by (induction ys) auto

lemma other_keys_differ:
  assumes d: "distinct (map f xs)" and i: "i < length xs"
  shows "\<forall>x \<in> set (take i xs) \<union> set (drop (Suc i) xs). f x \<noteq> f (xs ! i)"
proof -
  have "xs = take i xs @ xs ! i # drop (Suc i) xs"
    using i by (rule id_take_nth_drop)
  then have "distinct (map f (take i xs @ xs ! i # drop (Suc i) xs))"
    using d by simp
  then have "f (xs ! i) \<notin> f ` set (take i xs)" and "f (xs ! i) \<notin> f ` set (drop (Suc i) xs)"
    by simp_all
  then show ?thesis by (metis Un_iff imageI)
qed

lemma filter_map_remove_at:
  assumes d: "distinct (map f xs)" and i: "i < length xs" and k: "f (xs ! i) = k"
    and P: "\<forall>x \<in> set xs. P x" and nP: "\<not> P (g (xs ! i))"
  shows "filter P (map (\<lambda>x. if f x = k then g x else x) xs) = take i xs @ drop (Suc i) xs"
proof -
  let ?h = "\<lambda>x. if f x = k then g x else x"
  have split: "xs = take i xs @ xs ! i # drop (Suc i) xs"
    using i by (rule id_take_nth_drop)
  have others: "\<forall>x \<in> set (take i xs) \<union> set (drop (Suc i) xs). f x \<noteq> k"
    using other_keys_differ [OF d i] k by simp
  have Pt: "\<forall>x \<in> set (take i xs). f x \<noteq> k \<and> P x"
    using others P by (auto dest: in_set_takeD)
  have Pd: "\<forall>x \<in> set (drop (Suc i) xs). f x \<noteq> k \<and> P x"
    using others P by (auto dest: in_set_dropD)
  have "filter P (map ?h xs) = filter P (map ?h (take i xs @ xs ! i # drop (Suc i) xs))"
    using split by simp
  also have "\<dots> = filter P (map ?h (take i xs)) @ filter P [?h (xs ! i)]
                    @ filter P (map ?h (drop (Suc i) xs))"
    by simp
  also have "\<dots> = take i xs @ drop (Suc i) xs"
    using filter_map_untouched [OF Pt, of g] filter_map_untouched [OF Pd, of g] k nP by simp
  finally show ?thesis .
qed

lemma filter_all_kept: "\<forall>x \<in> set xs. P x \<Longrightarrow> filter P xs = xs"
  by (induction xs) auto

lemma map_key_map:
  assumes "\<And>x. f (h x) = f x"
  shows "map f (map h xs) = map f xs"
  by (induction xs) (simp_all add: assms)

section \<open>Cart store: \<open>addItem\<close>\<close>

text \<open>
  C1, as stated, fails: a cart whose line for the product has the quantity \<open>2 ^ 53\<close>
  satisfies the invariant, and \<open>addItem\<close> leaves that quantity as it is, since
  \<open>2 ^ 53 + 1\<close> is no double and rounds to \<open>2 ^ 53\<close>.
\<close>

theorem addItem_at_2p53:
  "cart_inv (items cartBig) \<and> has_line (id' jacket) (items cartBig) \<and>
   items (addItem jacket cartBig) = [\<lparr>product = jacket, quantity = Fin (2 ^ 53)\<rparr>] \<and>
   items (addItem jacket cartBig) \<noteq> [\<lparr>product = jacket, quantity = Fin (2 ^ 53 + 1)\<rparr>]"
proof -
  have i: "cart_inv (items cartBig)"
    by (simp add: cart_inv_def cartBig_def)
  have h: "has_line (id' jacket) (items cartBig)"
    by (simp add: has_line_def cartBig_def)
  have "num_add (Fin (2 ^ 53)) (Fin 1) = Fin (2 ^ 53)"
    by (simp only: num_add.simps toDouble_2p53_plus1)
  then have a: "items (addItem jacket cartBig) = [\<lparr>product = jacket, quantity = Fin (2 ^ 53)\<rparr>]"
    by (simp add: addItem_def cartBig_def)
  from i h a show ?thesis by simp
qed

text \<open>
  C1, amended. On a cart that satisfies the invariant, \<open>addItem p\<close> replaces the quantity \<open>q\<close>
  of the line for \<open>id p\<close>, when there is one, by the double nearest to \<open>q + 1\<close>, which is
  \<open>q + 1\<close> for every whole \<open>q\<close> below \<open>2 ^ 53\<close>, at the position where the line stands and with
  every other line and the order unchanged; otherwise it appends the line \<open>(p, 1)\<close> at the end.
  Adding the same product twice to a cart without it gives one line with quantity 2 at the
  end, not two lines.
\<close>

theorem addItem_spec:
  assumes inv: "cart_inv (items s)"
  shows "(has_line (id' p) (items s) \<longrightarrow>
           (\<exists>i < length (items s). id' (product (items s ! i)) = id' p \<and>
              addItem p s =
                s\<lparr>items := (items s)
                   [i := (items s ! i)\<lparr>quantity := num_add (quantity (items s ! i)) (Fin 1)\<rparr>]\<rparr> \<and>
              (\<forall>n. quantity (items s ! i) = Fin (of_int n) \<and> n < 2 ^ 53 \<longrightarrow>
                   num_add (quantity (items s ! i)) (Fin 1) = Fin (of_int n + 1))))
       \<and> (\<not> has_line (id' p) (items s) \<longrightarrow>
             addItem p s = s\<lparr>items := items s @ [\<lparr>product = p, quantity = Fin 1\<rparr>]\<rparr> \<and>
             addItem p (addItem p s) = s\<lparr>items := items s @ [\<lparr>product = p, quantity = Fin 2\<rparr>]\<rparr>)"
proof (intro conjI impI)
  assume h: "has_line (id' p) (items s)"
  then obtain i where i: "i < length (items s)" and k: "id' (product (items s ! i)) = id' p"
    by (auto simp: has_line_nth)
  from h obtain e where e: "find (\<lambda>item. id' (product item) = id' p) (items s) = Some e"
    using find_has_line [of "id' p" "items s"]
    by (cases "find (\<lambda>item. id' (product item) = id' p) (items s)") auto
  have d: "distinct (map (\<lambda>item. id' (product item)) (items s))"
    using inv by (simp add: cart_inv_def)
  have a: "addItem p s =
      s\<lparr>items := (items s)
         [i := (items s ! i)\<lparr>quantity := num_add (quantity (items s ! i)) (Fin 1)\<rparr>]\<rparr>"
    using e map_at_unique_key [OF d i k,
        of "\<lambda>item. item\<lparr>quantity := num_add (quantity item) (Fin 1)\<rparr>"]
    by (simp add: addItem_def)
  have ge: "num_le (Fin 1) (quantity (items s ! i))"
    using inv i by (simp add: cart_inv_def list_all_length)
  have b: "\<forall>n. quantity (items s ! i) = Fin (of_int n) \<and> n < 2 ^ 53 \<longrightarrow>
      num_add (quantity (items s ! i)) (Fin 1) = Fin (of_int n + 1)"
  proof (intro allI impI)
    fix n :: int
    assume q: "quantity (items s ! i) = Fin (of_int n) \<and> n < 2 ^ 53"
    with ge have "(1::rat) \<le> of_int n" by simp
    then have "0 \<le> n" by linarith
    with q show "num_add (quantity (items s ! i)) (Fin 1) = Fin (of_int n + 1)"
      by (simp only: add1_whole)
  qed
  from i k a b show "\<exists>i < length (items s). id' (product (items s ! i)) = id' p \<and>
              addItem p s =
                s\<lparr>items := (items s)
                   [i := (items s ! i)\<lparr>quantity := num_add (quantity (items s ! i)) (Fin 1)\<rparr>]\<rparr> \<and>
              (\<forall>n. quantity (items s ! i) = Fin (of_int n) \<and> n < 2 ^ 53 \<longrightarrow>
                   num_add (quantity (items s ! i)) (Fin 1) = Fin (of_int n + 1))"
    by blast
next
  assume n: "\<not> has_line (id' p) (items s)"
  then have f: "find (\<lambda>item. id' (product item) = id' p) (items s) = None"
    by (simp add: find_has_line)
  then show "addItem p s = s\<lparr>items := items s @ [\<lparr>product = p, quantity = Fin 1\<rparr>]\<rparr>"
    by (simp add: addItem_def)
next
  assume n: "\<not> has_line (id' p) (items s)"
  then have f: "find (\<lambda>item. id' (product item) = id' p) (items s) = None"
    by (simp add: find_has_line)
  have nomatch: "\<forall>x \<in> set (items s). id' (product x) \<noteq> id' p"
    using n by (simp add: has_line_def list_ex_iff)
  have first: "addItem p s = s\<lparr>items := items s @ [\<lparr>product = p, quantity = Fin 1\<rparr>]\<rparr>"
    using f by (simp add: addItem_def)
  have "find (\<lambda>item. id' (product item) = id' p) (items s @ [\<lparr>product = p, quantity = Fin 1\<rparr>])
        \<noteq> None"
    by (auto simp: find_None_iff)
  then obtain e where
    e: "find (\<lambda>item. id' (product item) = id' p) (items s @ [\<lparr>product = p, quantity = Fin 1\<rparr>])
          = Some e"
    by auto
  have m: "map (\<lambda>item. if id' (product item) = id' p
                         then item\<lparr>quantity := num_add (quantity item) (Fin 1)\<rparr> else item)
             (items s) = items s"
    using nomatch by (simp add: map_idI)
  have two: "num_add (Fin 1) (Fin 1) = Fin 2"
    using add1_whole [of 1] by simp
  show "addItem p (addItem p s) = s\<lparr>items := items s @ [\<lparr>product = p, quantity = Fin 2\<rparr>]\<rparr>"
    unfolding first using e m two by (simp add: addItem_def)
qed

theorem addItem_spec_witness:
  "cart_inv (items cart2) \<and> has_line (id' jacket) (items cart2) \<and>
   \<not> has_line (id' hoodie) (items cart2) \<and>
   quantity (items cart2 ! 0) = Fin (of_int 2) \<and> (2::int) < 2 ^ 53 \<and>
   items (addItem jacket cart2)
     = [\<lparr>product = jacket, quantity = Fin 3\<rparr>, \<lparr>product = dress, quantity = Fin 1\<rparr>] \<and>
   items (addItem hoodie (addItem hoodie cart2))
     = [\<lparr>product = jacket, quantity = Fin 2\<rparr>, \<lparr>product = dress, quantity = Fin 1\<rparr>,
        \<lparr>product = hoodie, quantity = Fin 2\<rparr>]"
proof -
  have inv: "cart_inv (items cart2)"
    by (simp add: cart_inv_def cart2_def jacket_def dress_def ustr_def)
  have h1: "has_line (id' jacket) (items cart2)"
    by (simp add: has_line_def cart2_def)
  have h2: "\<not> has_line (id' hoodie) (items cart2)"
    by (simp add: has_line_def cart2_def jacket_def dress_def hoodie_def ustr_def)
  have q: "quantity (items cart2 ! 0) = Fin (of_int 2)"
    by (simp add: cart2_def)
  have at: "i = 0" if "i < length (items cart2)" "id' (product (items cart2 ! i)) = id' jacket" for i
    using that by (cases i) (simp_all add: cart2_def jacket_def dress_def ustr_def)
  from addItem_spec [OF inv, of jacket] h1
  obtain i where "i < length (items cart2)" "id' (product (items cart2 ! i)) = id' jacket"
    and a: "addItem jacket cart2 =
      cart2\<lparr>items := (items cart2)
         [i := (items cart2 ! i)\<lparr>quantity := num_add (quantity (items cart2 ! i)) (Fin 1)\<rparr>]\<rparr>"
    and b: "\<forall>n. quantity (items cart2 ! i) = Fin (of_int n) \<and> n < 2 ^ 53 \<longrightarrow>
         num_add (quantity (items cart2 ! i)) (Fin 1) = Fin (of_int n + 1)"
    by blast
  then have i0: "i = 0" using at by blast
  from b q have "num_add (quantity (items cart2 ! 0)) (Fin 1) = Fin (of_int 2 + 1)"
    unfolding i0 by simp
  with a have a': "items (addItem jacket cart2)
     = [\<lparr>product = jacket, quantity = Fin 3\<rparr>, \<lparr>product = dress, quantity = Fin 1\<rparr>]"
    unfolding i0 by (simp add: cart2_def)
  from addItem_spec [OF inv, of hoodie] h2
  have "addItem hoodie (addItem hoodie cart2) =
      cart2\<lparr>items := items cart2 @ [\<lparr>product = hoodie, quantity = Fin 2\<rparr>]\<rparr>"
    by blast
  then have c: "items (addItem hoodie (addItem hoodie cart2))
     = [\<lparr>product = jacket, quantity = Fin 2\<rparr>, \<lparr>product = dress, quantity = Fin 1\<rparr>,
        \<lparr>product = hoodie, quantity = Fin 2\<rparr>]"
    by (simp add: cart2_def)
  from inv h1 h2 q a' c show ?thesis by simp
qed

section \<open>Cart store: \<open>updateQuantity\<close>\<close>

text \<open>
  C2. On a cart that satisfies the invariant, \<open>updateQuantity productId q\<close> with a line for
  \<open>productId\<close> at position \<open>i\<close>: for \<open>q \<ge> 1\<close> it stores \<open>q\<close> in that line and changes nothing else;
  for \<open>q \<le> 0\<close> it removes exactly that line, so the cart has one line less and the other lines
  keep their content and order. Without a line for \<open>productId\<close> the whole store state is
  unchanged.
\<close>

theorem updateQuantity_spec:
  assumes inv: "cart_inv (items s)"
  shows "(has_line pid (items s) \<longrightarrow>
           (\<exists>i < length (items s). id' (product (items s ! i)) = pid \<and>
              (num_le (Fin 1) q \<longrightarrow>
                 updateQuantity pid q s = s\<lparr>items := (items s)[i := (items s ! i)\<lparr>quantity := q\<rparr>]\<rparr>) \<and>
              (num_le q (Fin 0) \<longrightarrow>
                 updateQuantity pid q s = s\<lparr>items := take i (items s) @ drop (Suc i) (items s)\<rparr> \<and>
                 length (items (updateQuantity pid q s)) + 1 = length (items s))))
       \<and> (\<not> has_line pid (items s) \<longrightarrow> updateQuantity pid q s = s)"
proof (intro conjI impI)
  let ?f = "\<lambda>item. id' (product item)"
  let ?P = "\<lambda>item. num_less (Fin 0) (quantity item)"
  let ?g = "\<lambda>item. item\<lparr>quantity := q\<rparr>"
  have d: "distinct (map ?f (items s))" and pos: "\<forall>x \<in> set (items s). ?P x"
    using inv by (auto simp: cart_inv_def list_all_iff num_le1_less0)
  assume "has_line pid (items s)"
  then obtain i where i: "i < length (items s)" and k: "?f (items s ! i) = pid"
    by (auto simp: has_line_nth)
  have up: "updateQuantity pid q s = s\<lparr>items := (items s)[i := ?g (items s ! i)]\<rparr>"
    if "num_le (Fin 1) q"
  proof -
    from that have "num_less (Fin 0) q" by (rule num_le1_less0)
    then have "\<forall>x \<in> set ((items s)[i := ?g (items s ! i)]). ?P x"
      using pos by (auto dest!: set_update_subset_insert [THEN subsetD])
    then have "filter ?P ((items s)[i := ?g (items s ! i)]) = (items s)[i := ?g (items s ! i)]"
      by (rule filter_all_kept)
    then show ?thesis
      using map_at_unique_key [OF d i k, of ?g] by (simp add: updateQuantity_def)
  qed
  have rm: "updateQuantity pid q s = s\<lparr>items := take i (items s) @ drop (Suc i) (items s)\<rparr>"
    if "num_le q (Fin 0)"
    using filter_map_remove_at [OF d i k pos, of ?g] that
    by (simp add: updateQuantity_def num_le0_not_less0)
  have len: "length (items (updateQuantity pid q s)) + 1 = length (items s)"
    if "num_le q (Fin 0)"
    using rm [OF that] i by simp
  from i k up rm len
  show "\<exists>i < length (items s). id' (product (items s ! i)) = pid \<and>
              (num_le (Fin 1) q \<longrightarrow>
                 updateQuantity pid q s = s\<lparr>items := (items s)[i := (items s ! i)\<lparr>quantity := q\<rparr>]\<rparr>) \<and>
              (num_le q (Fin 0) \<longrightarrow>
                 updateQuantity pid q s = s\<lparr>items := take i (items s) @ drop (Suc i) (items s)\<rparr> \<and>
                 length (items (updateQuantity pid q s)) + 1 = length (items s))"
    by blast
next
  assume "\<not> has_line pid (items s)"
  then have "\<forall>x \<in> set (items s). id' (product x) \<noteq> pid \<and> num_less (Fin 0) (quantity x)"
    using inv by (auto simp: has_line_def list_ex_iff cart_inv_def list_all_iff num_le1_less0)
  then have "filter (\<lambda>item. num_less (Fin 0) (quantity item))
         (map (\<lambda>item. if id' (product item) = pid then item\<lparr>quantity := q\<rparr> else item)
              (items s)) = items s"
    by (rule filter_map_untouched)
  then show "updateQuantity pid q s = s"
    by (simp add: updateQuantity_def)
qed

theorem updateQuantity_spec_witness:
  "cart_inv (items cart2) \<and> has_line (ustr ''p1'') (items cart2) \<and>
   \<not> has_line (ustr ''p9'') (items cart2) \<and>
   num_le (Fin 1) (Fin 5) \<and> num_le (Fin 0) (Fin 0) \<and> num_le NegInf (Fin 0) \<and>
   items (updateQuantity (ustr ''p1'') (Fin 5) cart2)
     = [\<lparr>product = jacket, quantity = Fin 5\<rparr>, \<lparr>product = dress, quantity = Fin 1\<rparr>] \<and>
   items (updateQuantity (ustr ''p1'') (Fin 0) cart2) = [\<lparr>product = dress, quantity = Fin 1\<rparr>] \<and>
   items (updateQuantity (ustr ''p1'') NegInf cart2) = [\<lparr>product = dress, quantity = Fin 1\<rparr>] \<and>
   updateQuantity (ustr ''p9'') (Fin 3) cart2 = cart2"
proof -
  have inv: "cart_inv (items cart2)"
    by (simp add: cart_inv_def cart2_def jacket_def dress_def ustr_def)
  have h1: "has_line (ustr ''p1'') (items cart2)"
    by (simp add: has_line_def cart2_def jacket_def)
  have h9: "\<not> has_line (ustr ''p9'') (items cart2)"
    by (simp add: has_line_def cart2_def jacket_def dress_def ustr_def)
  have at: "i = 0"
    if "i < length (items cart2)" "id' (product (items cart2 ! i)) = ustr ''p1''" for i
    using that by (cases i) (simp_all add: cart2_def jacket_def dress_def ustr_def)
  from updateQuantity_spec [OF inv, of "ustr ''p1''" "Fin 5"] h1
  obtain i where "i < length (items cart2)" "id' (product (items cart2 ! i)) = ustr ''p1''"
    "updateQuantity (ustr ''p1'') (Fin 5) cart2
       = cart2\<lparr>items := (items cart2)[i := (items cart2 ! i)\<lparr>quantity := Fin 5\<rparr>]\<rparr>"
    by auto
  with at [of i]
  have a: "updateQuantity (ustr ''p1'') (Fin 5) cart2
      = cart2\<lparr>items := (items cart2)[0 := (items cart2 ! 0)\<lparr>quantity := Fin 5\<rparr>]\<rparr>"
    by auto
  from updateQuantity_spec [OF inv, of "ustr ''p1''" "Fin 0"] h1
  obtain j where "j < length (items cart2)" "id' (product (items cart2 ! j)) = ustr ''p1''"
    "updateQuantity (ustr ''p1'') (Fin 0) cart2
       = cart2\<lparr>items := take j (items cart2) @ drop (Suc j) (items cart2)\<rparr>"
    by auto
  with at [of j]
  have b: "updateQuantity (ustr ''p1'') (Fin 0) cart2
      = cart2\<lparr>items := take 0 (items cart2) @ drop (Suc 0) (items cart2)\<rparr>"
    by auto
  from updateQuantity_spec [OF inv, of "ustr ''p1''" NegInf] h1
  obtain l where "l < length (items cart2)" "id' (product (items cart2 ! l)) = ustr ''p1''"
    "updateQuantity (ustr ''p1'') NegInf cart2
       = cart2\<lparr>items := take l (items cart2) @ drop (Suc l) (items cart2)\<rparr>"
    by auto
  with at [of l]
  have n: "updateQuantity (ustr ''p1'') NegInf cart2
      = cart2\<lparr>items := take 0 (items cart2) @ drop (Suc 0) (items cart2)\<rparr>"
    by auto
  from updateQuantity_spec [OF inv, of "ustr ''p9''" "Fin 3"] h9
  have c: "updateQuantity (ustr ''p9'') (Fin 3) cart2 = cart2"
    by blast
  have a': "items (updateQuantity (ustr ''p1'') (Fin 5) cart2)
     = [\<lparr>product = jacket, quantity = Fin 5\<rparr>, \<lparr>product = dress, quantity = Fin 1\<rparr>]"
    unfolding a by (simp add: cart2_def)
  have b': "items (updateQuantity (ustr ''p1'') (Fin 0) cart2) = [\<lparr>product = dress, quantity = Fin 1\<rparr>]"
    unfolding b by (simp add: cart2_def)
  have n': "items (updateQuantity (ustr ''p1'') NegInf cart2) = [\<lparr>product = dress, quantity = Fin 1\<rparr>]"
    unfolding n by (simp add: cart2_def)
  from inv h1 h9 a' b' n' c show ?thesis by simp
qed

section \<open>Cart store: what every sequence of operations preserves\<close>

lemma cart_pos_addItem:
  assumes "cart_pos (items s)"
  shows "cart_pos (items (addItem p s))"
proof (cases "find (\<lambda>item. id' (product item) = id' p) (items s)")
  case None
  then have "id' p \<notin> (\<lambda>item. id' (product item)) ` set (items s)"
    by (auto simp: find_None_iff)
  with assms None show ?thesis
    by (simp add: addItem_def cart_pos_def)
next
  case (Some e)
  let ?f = "\<lambda>item. id' (product item)"
  let ?h = "\<lambda>item. if id' (product item) = id' p
                      then item\<lparr>quantity := num_add (quantity item) (Fin 1)\<rparr> else item"
  have ids: "map ?f (map ?h (items s)) = map ?f (items s)"
    by (rule map_key_map) simp
  have "distinct (map ?f (map ?h (items s)))"
    unfolding ids using assms by (simp add: cart_pos_def)
  moreover have "list_all (\<lambda>item. num_less (Fin 0) (quantity item)) (map ?h (items s))"
    using assms by (auto simp: cart_pos_def list_all_iff add1_pos)
  ultimately have "cart_pos (map ?h (items s))"
    unfolding cart_pos_def by blast
  then show ?thesis
    using Some by (simp add: addItem_def)
qed

lemma cart_pos_updateQuantity:
  assumes "cart_pos (items s)"
  shows "cart_pos (items (updateQuantity pid q s))"
proof -
  let ?f = "\<lambda>item. id' (product item)"
  let ?h = "\<lambda>item. if id' (product item) = pid then item\<lparr>quantity := q\<rparr> else item"
  let ?P = "\<lambda>item. num_less (Fin 0) (quantity item)"
  have ids: "map ?f (map ?h (items s)) = map ?f (items s)"
    by (rule map_key_map) simp
  have "distinct (map ?f (map ?h (items s)))"
    unfolding ids using assms by (simp add: cart_pos_def)
  then have "distinct (map ?f (filter ?P (map ?h (items s))))"
    by (rule distinct_map_filter)
  moreover have "list_all ?P (filter ?P (map ?h (items s)))"
    by (simp add: list_all_iff)
  ultimately have "cart_pos (filter ?P (map ?h (items s)))"
    unfolding cart_pos_def by blast
  then show ?thesis
    by (simp add: updateQuantity_def)
qed

lemma cart_pos_apply_op: "cart_pos (items s) \<Longrightarrow> cart_pos (items (apply_op s x))"
  by (cases x) (simp_all add: cart_pos_addItem cart_pos_updateQuantity resetCart_def,
      simp add: cart_pos_def)

lemma cart_pos_foldl: "cart_pos (items s) \<Longrightarrow> cart_pos (items (foldl apply_op s ops))"
  by (induction ops arbitrary: s) (simp_all add: cart_pos_apply_op)

lemma ge1_addItem:
  assumes "list_all (\<lambda>item. num_le (Fin 1) (quantity item)) (items s)"
  shows "list_all (\<lambda>item. num_le (Fin 1) (quantity item)) (items (addItem p s))"
  using assms
  by (cases "find (\<lambda>item. id' (product item) = id' p) (items s)")
    (auto simp: addItem_def list_all_iff add1_keeps_ge1)

lemma ge1_updateQuantity:
  assumes "list_all (\<lambda>item. num_le (Fin 1) (quantity item)) (items s)" and "whole q"
  shows "list_all (\<lambda>item. num_le (Fin 1) (quantity item)) (items (updateQuantity pid q s))"
  using assms by (auto simp: updateQuantity_def list_all_iff intro: whole_pos_ge1)

lemma ge1_apply_op:
  assumes "list_all (\<lambda>item. num_le (Fin 1) (quantity item)) (items s)" and "whole_update x"
  shows "list_all (\<lambda>item. num_le (Fin 1) (quantity item)) (items (apply_op s x))"
  using assms by (cases x) (simp_all add: ge1_addItem ge1_updateQuantity resetCart_def)

lemma ge1_foldl:
  assumes "list_all (\<lambda>item. num_le (Fin 1) (quantity item)) (items s)"
    and "list_all whole_update ops"
  shows "list_all (\<lambda>item. num_le (Fin 1) (quantity item)) (items (foldl apply_op s ops))"
  using assms by (induction ops arbitrary: s) (simp_all add: ge1_apply_op)

text \<open>
  C3, as stated, fails: \<open>updateQuantity\<close> keeps every line whose quantity is above 0, and after
  \<open>updateQuantity(id, 0.5)\<close> the cart holds a line with the quantity 0.5, which is below 1.
\<close>

theorem half_quantity_stored:
  "items (run_ops [AddItem jacket, UpdateQuantity (ustr ''p1'') (Fin (1 / 2))] initialCart)
     = [\<lparr>product = jacket, quantity = Fin (1 / 2)\<rparr>] \<and>
   \<not> num_le (Fin 1) (Fin (1 / 2))"
  by (simp add: run_ops_def addItem_def updateQuantity_def initialCart_def jacket_def)

text \<open>
  C3, amended. Every cart reached from the empty cart by a finite sequence of \<open>addItem\<close>,
  \<open>updateQuantity\<close> and \<open>resetCart\<close> calls, with any arguments, has pairwise different product
  identifiers and only quantities above 0 (0, a negative number and NaN are never stored); when
  every quantity passed to \<open>updateQuantity\<close> is a whole number, every quantity is at least 1.
\<close>

theorem cart_pos_reachable:
  "distinct (map (\<lambda>item. id' (product item)) (items (run_ops ops initialCart))) \<and>
   (\<forall>item \<in> set (items (run_ops ops initialCart)). num_less (Fin 0) (quantity item)) \<and>
   (list_all whole_update ops \<longrightarrow>
      (\<forall>item \<in> set (items (run_ops ops initialCart)). num_le (Fin 1) (quantity item)))"
proof -
  have "cart_pos (items initialCart)"
    by (simp add: cart_pos_def initialCart_def)
  then have "cart_pos (items (run_ops ops initialCart))"
    unfolding run_ops_def by (rule cart_pos_foldl)
  moreover have "list_all (\<lambda>item. num_le (Fin 1) (quantity item)) (items (run_ops ops initialCart))"
    if "list_all whole_update ops"
    unfolding run_ops_def using _ that by (rule ge1_foldl) (simp add: initialCart_def)
  ultimately show ?thesis
    by (simp add: cart_pos_def list_all_iff)
qed

theorem cart_pos_reachable_witness:
  "list_all whole_update [AddItem jacket, AddItem dress, AddItem jacket,
      UpdateQuantity (ustr ''p2'') (Fin 0), ResetCart, AddItem dress,
      UpdateQuantity (ustr ''p2'') (Fin 4)] \<and>
   distinct (map (\<lambda>item. id' (product item))
      (items (run_ops [AddItem jacket, AddItem dress, AddItem jacket,
         UpdateQuantity (ustr ''p2'') (Fin 0), ResetCart, AddItem dress,
         UpdateQuantity (ustr ''p2'') (Fin 4)] initialCart))) \<and>
   list_all (\<lambda>item. num_le (Fin 1) (quantity item))
      (items (run_ops [AddItem jacket, AddItem dress, AddItem jacket,
         UpdateQuantity (ustr ''p2'') (Fin 0), ResetCart, AddItem dress,
         UpdateQuantity (ustr ''p2'') (Fin 4)] initialCart)) \<and>
   list_all (\<lambda>item. num_less (Fin 0) (quantity item))
      (items (run_ops [AddItem jacket, UpdateQuantity (ustr ''p1'') (Fin (1 / 2))] initialCart))"
proof -
  let ?ops = "[AddItem jacket, AddItem dress, AddItem jacket,
      UpdateQuantity (ustr ''p2'') (Fin 0), ResetCart, AddItem dress,
      UpdateQuantity (ustr ''p2'') (Fin 4)]"
  have w: "list_all whole_update ?ops"
    by simp
  from cart_pos_reachable [of ?ops] w
  have a: "distinct (map (\<lambda>item. id' (product item)) (items (run_ops ?ops initialCart)))"
    and b: "list_all (\<lambda>item. num_le (Fin 1) (quantity item)) (items (run_ops ?ops initialCart))"
    by (simp_all only: list_all_iff) blast+
  from cart_pos_reachable [of "[AddItem jacket, UpdateQuantity (ustr ''p1'') (Fin (1 / 2))]"]
  have c: "list_all (\<lambda>item. num_less (Fin 0) (quantity item))
      (items (run_ops [AddItem jacket, UpdateQuantity (ustr ''p1'') (Fin (1 / 2))] initialCart))"
    by (simp only: list_all_iff) blast
  from w a b c show ?thesis by blast
qed

section \<open>Strings: \<open>trim\<close> and \<open>includes\<close>\<close>

lemma includes_sublist: "includes' s q \<longleftrightarrow> sublist q s"
  by (induction s) (simp_all add: sublist_Cons_right)

lemma includes_iff: "includes' s q \<longleftrightarrow> occurs q s"
  by (simp add: includes_sublist sublist_def occurs_def)

lemma trim_Nil_iff: "trim s = [] \<longleftrightarrow> blank s"
proof -
  have "trim s = [] \<longleftrightarrow> (\<forall>x \<in> set (dropWhile isWhiteSpace s). isWhiteSpace x)"
    by (simp add: trim_def)
  also have "\<dots> \<longleftrightarrow> dropWhile isWhiteSpace s = []"
  proof
    assume a: "\<forall>x \<in> set (dropWhile isWhiteSpace s). isWhiteSpace x"
    show "dropWhile isWhiteSpace s = []"
    proof (rule ccontr)
      assume n: "dropWhile isWhiteSpace s \<noteq> []"
      then have "\<not> isWhiteSpace (hd (dropWhile isWhiteSpace s))"
        by (rule hd_dropWhile)
      moreover have "hd (dropWhile isWhiteSpace s) \<in> set (dropWhile isWhiteSpace s)"
        using n by (rule hd_in_set)
      ultimately show False using a by blast
    qed
  next
    assume "dropWhile isWhiteSpace s = []"
    then show "\<forall>x \<in> set (dropWhile isWhiteSpace s). isWhiteSpace x"
      by (simp only: set_simps ball_empty)
  qed
  also have "\<dots> \<longleftrightarrow> blank s"
    by (simp add: blank_def list_all_iff)
  finally show ?thesis .
qed

lemma set_trim: "set (trim s) \<subseteq> set s"
proof
  fix x
  assume "x \<in> set (trim s)"
  then have "x \<in> set (dropWhile isWhiteSpace (rev (dropWhile isWhiteSpace s)))"
    by (simp add: trim_def)
  then have "x \<in> set (rev (dropWhile isWhiteSpace s))"
    by (rule set_dropWhileD)
  then have "x \<in> set (dropWhile isWhiteSpace s)"
    by simp
  then show "x \<in> set s"
    by (rule set_dropWhileD)
qed

lemma latin1_trim: "latin1 s \<Longrightarrow> latin1 (trim s)"
  using set_trim [of s] by (auto simp: latin1_def list_all_iff)

lemma occurs_map_iff:
  "occurs (map lowerLatin1 q) (map lowerLatin1 s) \<longleftrightarrow> ci_substring q s"
proof
  assume "occurs (map lowerLatin1 q) (map lowerLatin1 s)"
  then obtain u w where "map lowerLatin1 s = u @ (map lowerLatin1 q @ w)"
    by (auto simp: occurs_def)
  then have "\<exists>u' r. s = u' @ r \<and> u = map lowerLatin1 u' \<and> map lowerLatin1 q @ w = map lowerLatin1 r"
    by (simp only: map_eq_append_conv)
  then obtain u' r where s: "s = u' @ r" and r: "map lowerLatin1 r = map lowerLatin1 q @ w"
    by auto
  from r have "\<exists>v w'. r = v @ w' \<and> map lowerLatin1 q = map lowerLatin1 v \<and> w = map lowerLatin1 w'"
    by (simp only: map_eq_append_conv)
  then obtain v w' where "r = v @ w'" and "map lowerLatin1 v = map lowerLatin1 q"
    by auto
  with s show "ci_substring q s"
    unfolding ci_substring_def by blast
next
  assume "ci_substring q s"
  then obtain u v w where "s = u @ v @ w" and "map lowerLatin1 v = map lowerLatin1 q"
    by (auto simp: ci_substring_def)
  then have "map lowerLatin1 s = map lowerLatin1 u @ map lowerLatin1 q @ map lowerLatin1 w"
    by simp
  then show "occurs (map lowerLatin1 q) (map lowerLatin1 s)"
    unfolding occurs_def by blast
qed

lemma length_lowerFrom: "length (lowerFrom b s) = length s"
  by (induction s arbitrary: b) simp_all

lemma toLowerCase_sigma_Nil: "(toLowerCase_sigma s = []) = (s = [])"
  using length_lowerFrom [of False s] by (auto simp: toLowerCase_sigma_def simp flip: length_0_conv)

lemma lowerFrom_latin1: "latin1 s \<Longrightarrow> lowerFrom b s = map lowerLatin1 s"
  by (induction s arbitrary: b) (auto simp: latin1_def)

lemma toLowerCase_sigma_latin1: "latin1 s \<Longrightarrow> toLowerCase_sigma s = map lowerLatin1 s"
  by (simp add: toLowerCase_sigma_def lowerFrom_latin1)

section \<open>Catalog view: the filter\<close>

text \<open>
  C8, as stated, fails: the product named \<open>A\<Sigma>B\<close> is in the category searched and the search
  term \<open>A\<Sigma>\<close> is a substring of its name as it stands, yet the filter drops it: the term is
  lower-cased to \<open>a\<close> and a final sigma, the name to \<open>a\<close>, a small sigma and \<open>b\<close>.
\<close>

theorem sigma_term_not_found:
  "occurs sigmaTerm (name sigmaTee) \<and> trim sigmaTerm = sigmaTerm \<and>
   toLowerCase_sigma sigmaTerm = [0x61, 0x3C2] \<and>
   toLowerCase_sigma (name sigmaTee) = [0x61, 0x3C3, 0x62] \<and>
   filteredProducts toLowerCase_sigma [sigmaTee] (ustr ''All'') sigmaTerm = []"
proof -
  have "name sigmaTee = [] @ sigmaTerm @ [0x42]"
    by (simp add: sigmaTee_def sigmaTerm_def)
  then have o: "occurs sigmaTerm (name sigmaTee)"
    unfolding occurs_def by blast
  have t: "trim sigmaTerm = sigmaTerm"
    by (simp add: trim_def sigmaTerm_def isWhiteSpace_def)
  have a: "toLowerCase_sigma sigmaTerm = [0x61, 0x3C2]"
    by (simp add: toLowerCase_sigma_def sigmaTerm_def lowerLatin1_def casedUnit_def)
  have b: "toLowerCase_sigma (name sigmaTee) = [0x61, 0x3C3, 0x62]"
    by (simp add: toLowerCase_sigma_def sigmaTee_def lowerLatin1_def casedUnit_def)
  have c: "toLowerCase_sigma (description sigmaTee) = ustr ''printed tee''"
    by (simp add: toLowerCase_sigma_def sigmaTee_def lowerLatin1_def casedUnit_def ustr_def)
  have "filteredProducts toLowerCase_sigma [sigmaTee] (ustr ''All'') sigmaTerm = []"
    by (simp add: filteredProducts_def Let_def t a b c) (simp add: ustr_def)
  with o t a b show ?thesis by simp
qed

text \<open>
  C8, amended. For every product list, selected category and search term, \<open>filteredProducts\<close>
  keeps, in their order, exactly the products for which (a) the selected category is \<open>All\<close> or
  equals the product's category, and (b) the trimmed search term is empty or its lower-casing
  occurs in the lower-casing of the product's name or of its description, each string
  lower-cased as a whole by \<open>toLowerCase\<close> (which gives the empty string for the empty string
  only). Where the search term, the names and the descriptions hold characters up to U+00FF
  only, on which \<open>toLowerCase\<close> acts character by character, (b) is: the trimmed search term is
  empty or is a case-insensitive substring of the name or of the description. The filter is a
  function of these values alone: it sends no request.
\<close>

theorem filteredProducts_spec:
  assumes "\<forall>s. (toLowerCase s = []) = (s = [])"
  shows "filteredProducts toLowerCase products selected searchTerm =
           filter (lowered_match toLowerCase selected searchTerm) products
       \<and> ((\<forall>s. latin1 s \<longrightarrow> toLowerCase s = map lowerLatin1 s) \<and> latin1 searchTerm \<and>
           (\<forall>p \<in> set products. latin1 (name p) \<and> latin1 (description p)) \<longrightarrow>
           filteredProducts toLowerCase products selected searchTerm =
             filter (catalog_match selected searchTerm) products)"
proof (intro conjI impI)
  show low: "filteredProducts toLowerCase products selected searchTerm =
           filter (lowered_match toLowerCase selected searchTerm) products"
    using assms
    by (simp add: filteredProducts_def lowered_match_def [abs_def] Let_def includes_iff)
  assume h: "(\<forall>s. latin1 s \<longrightarrow> toLowerCase s = map lowerLatin1 s) \<and> latin1 searchTerm \<and>
           (\<forall>p \<in> set products. latin1 (name p) \<and> latin1 (description p))"
  then have t: "toLowerCase (trim searchTerm) = map lowerLatin1 (trim searchTerm)"
    by (simp add: latin1_trim)
  have "lowered_match toLowerCase selected searchTerm p = catalog_match selected searchTerm p"
    if "p \<in> set products" for p
  proof -
    from h that have "toLowerCase (name p) = map lowerLatin1 (name p)"
      and "toLowerCase (description p) = map lowerLatin1 (description p)"
      by simp_all
    then show ?thesis
      by (simp add: lowered_match_def catalog_match_def t occurs_map_iff)
  qed
  then have "filter (lowered_match toLowerCase selected searchTerm) products =
      filter (catalog_match selected searchTerm) products"
    by (intro filter_cong) simp_all
  with low show "filteredProducts toLowerCase products selected searchTerm =
             filter (catalog_match selected searchTerm) products"
    by simp
qed

theorem filteredProducts_spec_witness:
  "(\<forall>s. (toLowerCase_sigma s = []) = (s = [])) \<and>
   (\<forall>s. toLowerCase_sigma s = map lowerLatin1 s \<or> \<not> latin1 s) \<and>
   latin1 (ustr '' jacket '') \<and>
   list_all (\<lambda>p. latin1 (name p) \<and> latin1 (description p)) catalog \<and>
   filter (catalog_match (ustr ''Streetwear'') (ustr '' jacket '')) catalog = [jacket, hoodie] \<and>
   filter (lowered_match toLowerCase_sigma (ustr ''All'') (ustr ''JACKET'')) (catalog @ [sigmaTee])
     = [jacket, dress, hoodie]"
proof -
  have h1: "\<forall>s. (toLowerCase_sigma s = []) = (s = [])"
    by (simp add: toLowerCase_sigma_Nil)
  have h2: "\<forall>s. latin1 s \<longrightarrow> toLowerCase_sigma s = map lowerLatin1 s"
    by (simp add: toLowerCase_sigma_latin1)
  have h2': "\<forall>s. toLowerCase_sigma s = map lowerLatin1 s \<or> \<not> latin1 s"
    using toLowerCase_sigma_latin1 by blast
  have l: "latin1 (ustr '' jacket '')"
    by (simp add: latin1_def ustr_def)
  have c: "list_all (\<lambda>p. latin1 (name p) \<and> latin1 (description p)) catalog"
    by (simp add: catalog_def jacket_def dress_def cargo_def hoodie_def latin1_def ustr_def)
  then have c': "\<forall>p \<in> set catalog. latin1 (name p) \<and> latin1 (description p)"
    by (simp only: list_all_iff)
  have e1: "filteredProducts toLowerCase_sigma catalog (ustr ''Streetwear'') (ustr '' jacket '')
      = [jacket, hoodie]"
    by (simp add: filteredProducts_def Let_def catalog_def jacket_def dress_def cargo_def
        hoodie_def toLowerCase_sigma_def lowerLatin1_def trim_def isWhiteSpace_def ustr_def)
  have e2: "filteredProducts toLowerCase_sigma (catalog @ [sigmaTee]) (ustr ''All'') (ustr ''JACKET'')
      = [jacket, dress, hoodie]"
    by (simp add: filteredProducts_def Let_def catalog_def jacket_def dress_def cargo_def
        hoodie_def sigmaTee_def toLowerCase_sigma_def lowerLatin1_def casedUnit_def trim_def
        isWhiteSpace_def ustr_def)
  have p: "(\<forall>s. latin1 s \<longrightarrow> toLowerCase_sigma s = map lowerLatin1 s) \<and>
      latin1 (ustr '' jacket '') \<and>
      (\<forall>p \<in> set catalog. latin1 (name p) \<and> latin1 (description p))"
    using h2 l c' by (intro conjI)
  note f = filteredProducts_spec [OF h1, of catalog "ustr ''Streetwear''" "ustr '' jacket ''"]
  have "filteredProducts toLowerCase_sigma catalog (ustr ''Streetwear'') (ustr '' jacket '')
      = filter (catalog_match (ustr ''Streetwear'') (ustr '' jacket '')) catalog"
    using f [THEN conjunct2] p by (rule mp)
  then have a: "filter (catalog_match (ustr ''Streetwear'') (ustr '' jacket '')) catalog
      = [jacket, hoodie]"
    by (simp only: e1)
  note g = filteredProducts_spec [OF h1, of "catalog @ [sigmaTee]" "ustr ''All''" "ustr ''JACKET''"]
  have "filteredProducts toLowerCase_sigma (catalog @ [sigmaTee]) (ustr ''All'') (ustr ''JACKET'')
      = filter (lowered_match toLowerCase_sigma (ustr ''All'') (ustr ''JACKET''))
          (catalog @ [sigmaTee])"
    using g by (rule conjunct1)
  then have b: "filter (lowered_match toLowerCase_sigma (ustr ''All'') (ustr ''JACKET''))
      (catalog @ [sigmaTee]) = [jacket, dress, hoodie]"
    by (simp only: e2)
  from h1 h2' l c a b show ?thesis by (intro conjI)
qed

section \<open>Checkout flow: \<open>handleSubmit\<close>\<close>

lemma rejected_locally_blank:
  "rejected_locally f \<longleftrightarrow>
     blank (fullName f) \<or> blank (phone f) \<or> blank (address f) \<or> blank (size' f)"
  by (simp add: rejected_locally_def trim_Nil_iff)

lemma handleSubmit_rejected:
  "rejected_locally (form w) \<Longrightarrow>
   handleSubmit cb backend w =
     w\<lparr>form := (form w)\<lparr>error := Some (ustr ''Please fill in all required details before submitting.'')\<rparr>\<rparr>"
  by (simp add: handleSubmit_def handleSubmit_start_def)

lemma handleSubmit_accepted:
  "\<not> rejected_locally (form w) \<Longrightarrow>
   handleSubmit cb backend w =
     handleSubmit_finish cb (form w) (backend (order_payload w))
       (w\<lparr>form := (form w)\<lparr>error := None, submitting := True\<rparr>,
          requests := requests w @ [order_payload w]\<rparr>)"
  by (simp add: handleSubmit_def handleSubmit_start_def)

lemma store_handleSubmit:
  "store (handleSubmit cb backend w) =
     (if \<not> rejected_locally (form w) \<and> backend (order_payload w) = Resolved
      then result_store (cb \<lparr>fullName = trim (fullName (form w)), phone = trim (phone (form w)),
                              address = trim (address (form w)), size' = size' (form w)\<rparr> (store w))
      else store w)"
proof (cases "rejected_locally (form w)")
  case True
  then show ?thesis by (simp add: handleSubmit_rejected)
next
  case False
  then show ?thesis
    by (simp add: handleSubmit_accepted handleSubmit_finish_def
        split: post_result.split callback_result.split)
qed

lemma trim_sizes: "v \<in> set sizes \<Longrightarrow> trim v = v"
  by (auto simp: sizes_def trim_def isWhiteSpace_def ustr_def)

subsection \<open>The entry guard\<close>

text \<open>
  C6. When at least one of \<open>fullName\<close>, \<open>phone\<close>, \<open>address\<close>, \<open>size\<close> is empty or holds white
  space only, submitting is rejected in the component: the validation message is set and
  shown, no request is sent whatever the backend would answer, and the four fields, the
  \<open>submitting\<close> flag and the cart store are as before.
\<close>

theorem handleSubmit_rejects_blank:
  assumes "blank (fullName (form w)) \<or> blank (phone (form w)) \<or> blank (address (form w))
           \<or> blank (size' (form w))"
  shows "handleSubmit cb backend w =
           w\<lparr>form := (form w)
               \<lparr>error := Some (ustr ''Please fill in all required details before submitting.'')\<rparr>\<rparr>
       \<and> shown_error (handleSubmit cb backend w) =
           Some (ustr ''Please fill in all required details before submitting.'')
       \<and> requests (handleSubmit cb backend w) = requests w
       \<and> store (handleSubmit cb backend w) = store w
       \<and> fullName (form (handleSubmit cb backend w)) = fullName (form w)
       \<and> phone (form (handleSubmit cb backend w)) = phone (form w)
       \<and> address (form (handleSubmit cb backend w)) = address (form w)
       \<and> size' (form (handleSubmit cb backend w)) = size' (form w)
       \<and> submitting (form (handleSubmit cb backend w)) = submitting (form w)"
proof -
  from assms have "rejected_locally (form w)"
    by (simp add: rejected_locally_blank)
  then have "handleSubmit cb backend w =
      w\<lparr>form := (form w)\<lparr>error := Some (ustr ''Please fill in all required details before submitting.'')\<rparr>\<rparr>"
    by (rule handleSubmit_rejected)
  then show ?thesis
    by (simp add: shown_error_def ustr_def)
qed

theorem handleSubmit_rejects_blank_witness:
  "blank (phone (form (filled\<lparr>form := (form filled)\<lparr>phone := [0x20, 0x2003]\<rparr>\<rparr>))) \<and>
   shown_error (handleSubmit onSubmitOrder_App (\<lambda>p. Resolved)
      (filled\<lparr>form := (form filled)\<lparr>phone := [0x20, 0x2003]\<rparr>\<rparr>))
     = Some (ustr ''Please fill in all required details before submitting.'') \<and>
   requests (handleSubmit onSubmitOrder_App (\<lambda>p. Resolved)
      (filled\<lparr>form := (form filled)\<lparr>phone := [0x20, 0x2003]\<rparr>\<rparr>)) = [] \<and>
   store (handleSubmit onSubmitOrder_App (\<lambda>p. Resolved)
      (filled\<lparr>form := (form filled)\<lparr>phone := [0x20, 0x2003]\<rparr>\<rparr>)) = cart2"
proof -
  let ?w = "filled\<lparr>form := (form filled)\<lparr>phone := [0x20, 0x2003]\<rparr>\<rparr>"
  have b: "blank (phone (form ?w))"
    by (simp add: blank_def isWhiteSpace_def)
  then have "blank (fullName (form ?w)) \<or> blank (phone (form ?w)) \<or> blank (address (form ?w))
           \<or> blank (size' (form ?w))"
    by blast
  note r = handleSubmit_rejects_blank [OF this, of onSubmitOrder_App "\<lambda>p. Resolved"]
  from r have e: "shown_error (handleSubmit onSubmitOrder_App (\<lambda>p. Resolved) ?w)
     = Some (ustr ''Please fill in all required details before submitting.'')"
    by blast
  from r have "requests (handleSubmit onSubmitOrder_App (\<lambda>p. Resolved) ?w) = requests ?w"
    by blast
  then have q: "requests (handleSubmit onSubmitOrder_App (\<lambda>p. Resolved) ?w) = []"
    by (simp add: filled_def)
  from r have "store (handleSubmit onSubmitOrder_App (\<lambda>p. Resolved) ?w) = store ?w"
    by blast
  then have c: "store (handleSubmit onSubmitOrder_App (\<lambda>p. Resolved) ?w) = cart2"
    by (simp add: filled_def)
  from b e q c show ?thesis by blast
qed

subsection \<open>The cart store is not written by the handler\<close>

text \<open>
  C4. \<open>handleSubmit\<close> never writes to the cart store. With the callback that \<open>App.tsx\<close> passes
  the store after the handler, and after its second half alone, is the store before, so the
  cart's lines stay whatever the outcome. With any callback, the store changes only on a
  successful submission, and then to what the callback makes of it when called with the
  submitted details: the trimmed name, phone and address and the chosen size (trimming a size of the
  select changes nothing).
\<close>

theorem handleSubmit_cart_frame:
  "store (handleSubmit onSubmitOrder_App backend w) = store w
   \<and> store (handleSubmit_finish onSubmitOrder_App f0 result w) = store w
   \<and> store (handleSubmit onSubmitOrder backend w) =
       (if \<not> rejected_locally (form w) \<and> backend (order_payload w) = Resolved
        then result_store
               (onSubmitOrder \<lparr>fullName = trim (fullName (form w)), phone = trim (phone (form w)),
                                address = trim (address (form w)), size' = size' (form w)\<rparr>
                  (store w))
        else store w)
   \<and> (size' (form w) \<in> set sizes \<longrightarrow> trim (size' (form w)) = size' (form w))"
proof (intro conjI impI)
  show "store (handleSubmit onSubmitOrder_App backend w) = store w"
    by (simp add: store_handleSubmit onSubmitOrder_App_def)
  show "store (handleSubmit_finish onSubmitOrder_App f0 result w) = store w"
    by (simp add: handleSubmit_finish_def onSubmitOrder_App_def split: post_result.split)
  show "store (handleSubmit onSubmitOrder backend w) =
       (if \<not> rejected_locally (form w) \<and> backend (order_payload w) = Resolved
        then result_store
               (onSubmitOrder \<lparr>fullName = trim (fullName (form w)), phone = trim (phone (form w)),
                                address = trim (address (form w)), size' = size' (form w)\<rparr>
                  (store w))
        else store w)"
    by (rule store_handleSubmit)
  assume "size' (form w) \<in> set sizes"
  then show "trim (size' (form w)) = size' (form w)"
    by (rule trim_sizes)
qed

theorem handleSubmit_cart_frame_witness:
  "size' (form filled) \<in> set sizes \<and> trim (size' (form filled)) = ustr ''L'' \<and>
   \<not> rejected_locally (form filled) \<and>
   store (handleSubmit onSubmitOrder_App (\<lambda>p. Resolved) filled) = cart2 \<and>
   store (handleSubmit (\<lambda>d st. Returned (setConfirmationMessage (Some (fullName d)) (resetCart st)))
            (\<lambda>p. Resolved) filled)
     = \<lparr>items = [], checkoutOpen = True, confirmationMessage = Some (ustr ''Elena Marques'')\<rparr>"
proof -
  let ?cb = "\<lambda>d st. Returned (setConfirmationMessage (Some (fullName d)) (resetCart st))"
  have s: "size' (form filled) \<in> set sizes"
    by (simp add: filled_def sizes_def ustr_def)
  have r: "\<not> rejected_locally (form filled)"
    by (simp add: rejected_locally_def filled_def trim_def isWhiteSpace_def ustr_def)
  have t: "trim (fullName (form filled)) = ustr ''Elena Marques''"
    by (simp add: filled_def trim_def isWhiteSpace_def ustr_def)
  note f = handleSubmit_cart_frame [of "\<lambda>p. Resolved" filled "form filled" Resolved ?cb]
  from f s have "trim (size' (form filled)) = size' (form filled)"
    by blast
  then have a: "trim (size' (form filled)) = ustr ''L''"
    by (simp add: filled_def)
  from f have "store (handleSubmit onSubmitOrder_App (\<lambda>p. Resolved) filled) = store filled"
    by blast
  then have b: "store (handleSubmit onSubmitOrder_App (\<lambda>p. Resolved) filled) = cart2"
    by (simp add: filled_def)
  from f r have "store (handleSubmit ?cb (\<lambda>p. Resolved) filled) =
      result_store (?cb \<lparr>fullName = trim (fullName (form filled)),
        phone = trim (phone (form filled)), address = trim (address (form filled)),
        size' = size' (form filled)\<rparr> (store filled))"
    by simp
  then have c: "store (handleSubmit ?cb (\<lambda>p. Resolved) filled)
     = \<lparr>items = [], checkoutOpen = True, confirmationMessage = Some (ustr ''Elena Marques'')\<rparr>"
    by (simp add: t setConfirmationMessage_def resetCart_def) (simp add: filled_def cart2_def)
  from s a r b c show ?thesis by blast
qed

subsection \<open>Success and failure\<close>

text \<open>After a successful submission the fields are back at their defaults and no error is
  set; after a failed one the fields are as typed, the retry message is set and \<open>submitting\<close>
  is false again.\<close>

lemma handleSubmit_success:
  assumes "\<not> rejected_locally (form w)" and "backend (order_payload w) = Resolved"
    and "cb \<lparr>fullName = trim (fullName (form w)), phone = trim (phone (form w)),
              address = trim (address (form w)), size' = size' (form w)\<rparr> (store w) = Returned st"
  shows "form (handleSubmit cb backend w) =
           \<lparr>fullName = [], phone = [], address = [], size' = ustr ''M'', error = None,
            submitting = False\<rparr>"
  using assms by (simp add: handleSubmit_accepted handleSubmit_finish_def sizes_def)

lemma handleSubmit_failure:
  assumes "\<not> rejected_locally (form w)" and "backend (order_payload w) = Rejected message"
  shows "handleSubmit cb backend w =
           w\<lparr>form := (form w)\<lparr>error := Some (ustr ''Failed to submit order. Please try again.''),
                               submitting := False\<rparr>,
             requests := requests w @ [order_payload w]\<rparr>"
  using assms by (simp add: handleSubmit_accepted handleSubmit_finish_def)

text \<open>The confirmation banner shows the store's \<open>confirmationMessage\<close>. Nothing in a session
  of the application sets it: the handler leaves it alone, the callback of \<open>App.tsx\<close> is empty
  and \<open>handleAddToCart\<close> clears it.\<close>

lemma confirmation_handleSubmit_App:
  "confirmationMessage (store (handleSubmit onSubmitOrder_App backend w)) =
   confirmationMessage (store w)"
  by (simp add: store_handleSubmit onSubmitOrder_App_def)

lemma confirmation_apply_op: "confirmationMessage (apply_op st x) = confirmationMessage st"
  by (cases x) (simp_all add: addItem_def updateQuantity_def resetCart_def split: option.split)

lemma confirmation_checkout_step:
  "confirmationMessage (store w) = None \<Longrightarrow>
   confirmationMessage (store (checkout_step onSubmitOrder_App w e)) = None"
  by (cases e)
    (simp_all add: confirmation_handleSubmit_App confirmation_apply_op handleAddToCart_def
      setConfirmationMessage_def toggleCheckout_def)

lemma confirmation_foldl:
  "confirmationMessage (store w) = None \<Longrightarrow>
   confirmationMessage (store (foldl (checkout_step onSubmitOrder_App) w evs)) = None"
  by (induction evs arbitrary: w) (simp_all add: confirmation_checkout_step)

lemma no_confirmation_reachable:
  "shown_confirmation (checkout_run onSubmitOrder_App evs) = None"
  by (simp add: shown_confirmation_def checkout_run_def confirmation_foldl initialWorld_def
      initialCart_def)

text \<open>
  C5. A successful submission of the filled-in form, with the callback of \<open>App.tsx\<close>: the
  request is sent, the fields are reset to the empty string and \<open>M\<close>, \<open>submitting\<close> is false, and
  neither a confirmation nor an error message is shown.
\<close>

theorem handleSubmit_success_no_confirmation:
  "\<not> rejected_locally (form filled) \<and>
   form (handleSubmit onSubmitOrder_App backend_accepts filled) =
     \<lparr>fullName = [], phone = [], address = [], size' = ustr ''M'', error = None, submitting = False\<rparr> \<and>
   requests (handleSubmit onSubmitOrder_App backend_accepts filled) =
     [\<lparr>fullName = ustr ''Elena Marques'', phone = ustr ''+1 555 010 2045'',
       address = ustr ''123 Atelier Lane'',
       size' = ustr ''L'', orderItems = [(ustr ''p1'', Fin 2), (ustr ''p2'', Fin 1)]\<rparr>] \<and>
   shown_confirmation (handleSubmit onSubmitOrder_App backend_accepts filled) = None \<and>
   shown_error (handleSubmit onSubmitOrder_App backend_accepts filled) = None"
proof -
  have r: "\<not> rejected_locally (form filled)"
    by (simp add: rejected_locally_def filled_def trim_def isWhiteSpace_def ustr_def)
  have p: "order_payload filled =
     \<lparr>fullName = ustr ''Elena Marques'', phone = ustr ''+1 555 010 2045'',
       address = ustr ''123 Atelier Lane'',
       size' = ustr ''L'', orderItems = [(ustr ''p1'', Fin 2), (ustr ''p2'', Fin 1)]\<rparr>"
    by (simp add: order_payload_def filled_def cart2_def jacket_def dress_def trim_def
        isWhiteSpace_def ustr_def)
  have h: "handleSubmit onSubmitOrder_App backend_accepts filled =
      filled\<lparr>form := \<lparr>fullName = [], phone = [], address = [], size' = ustr ''M'', error = None,
                         submitting = False\<rparr>,
               requests := [order_payload filled]\<rparr>"
    using r by (simp add: handleSubmit_accepted handleSubmit_finish_def onSubmitOrder_App_def
        backend_accepts_def sizes_def filled_def)
  show ?thesis
    using r by (simp add: h p shown_confirmation_def shown_error_def) (simp add: filled_def cart2_def)
qed

subsection \<open>The message of a failed submission\<close>

text \<open>
  C7, as stated, fails: the backend refuses the order with the message
  \<open>Size L is sold out\<close>, and the form shows its own fixed message, not the backend's.
\<close>

theorem backend_message_not_shown:
  "\<not> rejected_locally (form filled) \<and>
   backend_sold_out (order_payload filled) = Rejected (Some (ustr ''Size L is sold out'')) \<and>
   shown_error (handleSubmit onSubmitOrder_App backend_sold_out filled)
     = Some (ustr ''Failed to submit order. Please try again.'') \<and>
   shown_error (handleSubmit onSubmitOrder_App backend_sold_out filled)
     \<noteq> Some (ustr ''Size L is sold out'')"
proof -
  have r: "\<not> rejected_locally (form filled)"
    by (simp add: rejected_locally_def filled_def trim_def isWhiteSpace_def ustr_def)
  then have "handleSubmit onSubmitOrder_App backend_sold_out filled =
      filled\<lparr>form := (form filled)\<lparr>error := Some (ustr ''Failed to submit order. Please try again.''),
                               submitting := False\<rparr>,
             requests := requests filled @ [order_payload filled]\<rparr>"
    by (rule handleSubmit_failure) (simp add: backend_sold_out_def)
  then show ?thesis
    using r by (simp add: shown_error_def backend_sold_out_def ustr_def)
qed

text \<open>
  C7, amended. For every submission that passes the entry guard and that the backend refuses
  or that fails on the network, the form shows the fixed message
  \<open>Failed to submit order. Please try again.\<close>, whether or not the backend supplied a message.
\<close>

theorem handleSubmit_failure_message:
  assumes "\<not> rejected_locally (form w)" and "backend (order_payload w) = Rejected message"
  shows "shown_error (handleSubmit onSubmitOrder backend w) =
           Some (ustr ''Failed to submit order. Please try again.'')"
  using assms by (simp add: handleSubmit_failure shown_error_def ustr_def)

theorem handleSubmit_failure_message_witness:
  "\<not> rejected_locally (form filled) \<and>
   shown_error (handleSubmit onSubmitOrder_App (\<lambda>p. Rejected (Some (ustr ''Size L is sold out''))) filled)
     = Some (ustr ''Failed to submit order. Please try again.'') \<and>
   shown_error (handleSubmit onSubmitOrder_App (\<lambda>p. Rejected None) filled)
     = Some (ustr ''Failed to submit order. Please try again.'')"
proof -
  have r: "\<not> rejected_locally (form filled)"
    by (simp add: rejected_locally_def filled_def trim_def isWhiteSpace_def ustr_def)
  from handleSubmit_failure_message [OF r, of "\<lambda>p. Rejected (Some (ustr ''Size L is sold out''))"
      "Some (ustr ''Size L is sold out'')" onSubmitOrder_App]
    handleSubmit_failure_message [OF r, of "\<lambda>p. Rejected None" None onSubmitOrder_App] r
  show ?thesis by simp
qed

subsection \<open>The size field\<close>









section \<open>Product detail overlay: the carousel\<close>

lemma run3:
  assumes "length (images p) = 3"
  shows "map_option activeIndex (modal_run initialModal [Open p]) = Some 0"
    and "map_option activeIndex (modal_run initialModal [Open p, Tick]) = Some 1"
    and "map_option activeIndex (modal_run initialModal [Open p, Tick, Tick]) = Some 2"
    and "map_option activeIndex (modal_run initialModal [Open p, Tick, Tick, Tick]) = Some 0"
  using assms
  by (simp_all add: initialModal_def handleOpenModal_def timerRunning_def modalImages_def tick_def)

text \<open>
  C9. With more than one image, while the overlay is open and autoplay is on, a tick of the
  timer (interval 4000 ms) moves the active index from \<open>i\<close> to \<open>(i + 1) mod n\<close>; with three images
  and no interaction the index goes 0, 1, 2, 0. Next and previous, and \<open>goToSlide\<close>, turn
  autoplay off, after which no tick occurs. Opening a closed overlay gives index 0 with
  autoplay on, and closing the overlay from any state in which it is shown gives a closed one:
  after a close and an open, for the same or another product, the index is 0 and autoplay is
  on. With no image or one image there is no tick and no navigation control.
\<close>

theorem carousel_spec:
  "(isOpen m \<and> isAutoplaying m \<and> length (modalImages m) > 1 \<longrightarrow>
      modal_step m Tick = Some (m\<lparr>activeIndex := (activeIndex m + 1) mod length (modalImages m)\<rparr>))
   \<and> (length (images p) = 3 \<longrightarrow>
      map_option activeIndex (modal_run initialModal [Open p]) = Some 0 \<and>
      map_option activeIndex (modal_run initialModal [Open p, Tick]) = Some 1 \<and>
      map_option activeIndex (modal_run initialModal [Open p, Tick, Tick]) = Some 2 \<and>
      map_option activeIndex (modal_run initialModal [Open p, Tick, Tick, Tick]) = Some 0)
   \<and> (\<forall>e \<in> {Next, Prev}. \<forall>m'. modal_step m e = Some m' \<longrightarrow>
         \<not> isAutoplaying m' \<and> modal_step m' Tick = None)
   \<and> (\<not> isAutoplaying (goToSlide i m) \<and> modal_step (goToSlide i m) Tick = None)
   \<and> (\<not> isOpen m \<longrightarrow>
         modal_step m (Open p) =
           Some \<lparr>modalProduct = Some p, isOpen = True, activeIndex = 0, isAutoplaying = True\<rparr>)
   \<and> (rendered m \<longrightarrow>
         modal_step m Close = Some (handleCloseModal m) \<and> \<not> isOpen (handleCloseModal m) \<and>
         modal_run m [Close, Open p] =
           Some \<lparr>modalProduct = Some p, isOpen = True, activeIndex = 0, isAutoplaying = True\<rparr>)
   \<and> (length (modalImages m) \<le> 1 \<longrightarrow>
         modal_step m Tick = None \<and> modal_step m Next = None \<and> modal_step m Prev = None \<and>
         modal_step m Toggle = None)
   \<and> AUTOPLAY_INTERVAL = 4 * 1000"
proof (intro conjI impI ballI allI)
  assume "isOpen m \<and> isAutoplaying m \<and> length (modalImages m) > 1"
  then show "modal_step m Tick =
      Some (m\<lparr>activeIndex := (activeIndex m + 1) mod length (modalImages m)\<rparr>)"
    by (simp add: timerRunning_def tick_def)
next
  assume l: "length (images p) = 3"
  show "map_option activeIndex (modal_run initialModal [Open p]) = Some 0"
    "map_option activeIndex (modal_run initialModal [Open p, Tick]) = Some 1"
    "map_option activeIndex (modal_run initialModal [Open p, Tick, Tick]) = Some 2"
    "map_option activeIndex (modal_run initialModal [Open p, Tick, Tick, Tick]) = Some 0"
    using run3 [OF l] by blast+
next
  fix e m'
  assume "e \<in> {Next, Prev}" and "modal_step m e = Some m'"
  then have "m' = nextSlide m \<or> m' = prevSlide m"
    by (auto split: if_splits)
  then show "\<not> isAutoplaying m'" and "modal_step m' Tick = None"
    by (auto simp: nextSlide_def prevSlide_def timerRunning_def)
next
  show "\<not> isAutoplaying (goToSlide i m)" and "modal_step (goToSlide i m) Tick = None"
    by (simp_all add: goToSlide_def timerRunning_def)
next
  assume "\<not> isOpen m"
  then show "modal_step m (Open p) =
           Some \<lparr>modalProduct = Some p, isOpen = True, activeIndex = 0, isAutoplaying = True\<rparr>"
    by (simp add: handleOpenModal_def)
next
  assume r: "rendered m"
  then show "modal_step m Close = Some (handleCloseModal m)"
    by simp
  show "\<not> isOpen (handleCloseModal m)"
    by (simp add: handleCloseModal_def)
  from r show "modal_run m [Close, Open p] =
      Some \<lparr>modalProduct = Some p, isOpen = True, activeIndex = 0, isAutoplaying = True\<rparr>"
    by (simp add: handleCloseModal_def handleOpenModal_def)
next
  assume "length (modalImages m) \<le> 1"
  then show "modal_step m Tick = None" "modal_step m Next = None" "modal_step m Prev = None"
    "modal_step m Toggle = None"
    by (simp_all add: timerRunning_def controlsShown_def)
next
  show "AUTOPLAY_INTERVAL = 4 * 1000"
    by (simp add: AUTOPLAY_INTERVAL_def)
qed

theorem carousel_spec_witness:
  "isOpen jacketOpen \<and> isAutoplaying jacketOpen \<and> length (modalImages jacketOpen) > 1 \<and>
   modal_step jacketOpen Tick = Some (jacketOpen\<lparr>activeIndex := 1\<rparr>) \<and>
   length (images jacket) = 3 \<and>
   map_option activeIndex (modal_run initialModal [Open jacket, Tick, Tick, Tick]) = Some 0 \<and>
   Next \<in> {Next, Prev} \<and> modal_step jacketOpen Next = Some (nextSlide jacketOpen) \<and>
   modal_step (nextSlide jacketOpen) Tick = None \<and>
   \<not> isOpen initialModal \<and> modal_step initialModal (Open jacket) = Some jacketOpen \<and>
   rendered (nextSlide jacketOpen) \<and> activeIndex (nextSlide jacketOpen) = 1 \<and>
   modal_run (nextSlide jacketOpen) [Close, Open dress] = Some dressOpen \<and>
   modal_run (nextSlide jacketOpen) [Close, Open jacket] = Some jacketOpen \<and>
   length (modalImages dressOpen) \<le> 1 \<and>
   modal_step dressOpen Tick = None \<and> modal_step dressOpen Next = None"
proof -
  have rn: "rendered (nextSlide jacketOpen)"
    by (simp add: rendered_def nextSlide_def jacketOpen_def)
  have ai: "activeIndex (nextSlide jacketOpen) = 1"
    by (simp add: nextSlide_def jacketOpen_def modalImages_def jacket_def)
  from carousel_spec [of "nextSlide jacketOpen" dress 0] rn
  have "modal_run (nextSlide jacketOpen) [Close, Open dress] =
      Some \<lparr>modalProduct = Some dress, isOpen = True, activeIndex = 0, isAutoplaying = True\<rparr>"
    by blast
  then have ro: "modal_run (nextSlide jacketOpen) [Close, Open dress] = Some dressOpen"
    by (simp only: dressOpen_def)
  from carousel_spec [of "nextSlide jacketOpen" jacket 0] rn
  have "modal_run (nextSlide jacketOpen) [Close, Open jacket] =
      Some \<lparr>modalProduct = Some jacket, isOpen = True, activeIndex = 0, isAutoplaying = True\<rparr>"
    by blast
  then have rj: "modal_run (nextSlide jacketOpen) [Close, Open jacket] = Some jacketOpen"
    by (simp only: jacketOpen_def)
  have a: "isOpen jacketOpen \<and> isAutoplaying jacketOpen \<and> length (modalImages jacketOpen) > 1"
    by (simp add: jacketOpen_def modalImages_def jacket_def)
  have l: "length (images jacket) = 3"
    by (simp add: jacket_def)
  have n: "modal_step jacketOpen Next = Some (nextSlide jacketOpen)"
    by (simp add: controlsShown_def rendered_def jacketOpen_def modalImages_def jacket_def)
  have c: "\<not> isOpen initialModal"
    by (simp add: initialModal_def)
  have d: "length (modalImages dressOpen) \<le> 1"
    by (simp add: dressOpen_def modalImages_def dress_def)
  note j = carousel_spec [of jacketOpen jacket 0]
  from j a have "modal_step jacketOpen Tick =
      Some (jacketOpen\<lparr>activeIndex := (activeIndex jacketOpen + 1) mod length (modalImages jacketOpen)\<rparr>)"
    by blast
  then have t: "modal_step jacketOpen Tick = Some (jacketOpen\<lparr>activeIndex := 1\<rparr>)"
    by (simp add: jacketOpen_def modalImages_def jacket_def)
  from j l have r: "map_option activeIndex (modal_run initialModal [Open jacket, Tick, Tick, Tick]) = Some 0"
    by blast
  from j n have p: "modal_step (nextSlide jacketOpen) Tick = None"
    by blast
  from carousel_spec [of initialModal jacket 0] c
  have "modal_step initialModal (Open jacket) =
      Some \<lparr>modalProduct = Some jacket, isOpen = True, activeIndex = 0, isAutoplaying = True\<rparr>"
    by blast
  then have op: "modal_step initialModal (Open jacket) = Some jacketOpen"
    by (simp add: jacketOpen_def)
  from carousel_spec [of dressOpen dress 0] d
  have s: "modal_step dressOpen Tick = None \<and> modal_step dressOpen Next = None"
    by blast
  from a t l r n p c op rn ai ro rj d s show ?thesis by blast
qed

end
